theory Spec2Isabelle
  imports Complex_Main "HOL-Library.Log_Nat"
begin

section \<open>Python values: exceptions, indexing and slicing\<close>

text \<open>
  The exceptions the modelled code can raise. \<open>NotASeries\<close> is not a Python
  exception: it stands for the scalar that numpy produces when the mean of an empty
  stack of replicas (a NaN) is cast to an integer; such a value is no occupancy series
  and every later slice of it is rejected.
\<close>

datatype py_error =
  ValueError | IndexError | ZeroDivisionError | OverflowError | IntCastingNaNError | NotASeries

text \<open>\<open>xs[i]\<close>: negative indices count from the end, anything else out of range raises.\<close>

definition py_get :: "'a list \<Rightarrow> int \<Rightarrow> py_error + 'a" where
  "py_get xs i =
     (if 0 \<le> i \<and> i < int (length xs) then Inr (xs ! nat i)
      else if i < 0 \<and> - int (length xs) \<le> i then Inr (xs ! nat (int (length xs) + i))
      else Inl IndexError)"

text \<open>\<open>xs[k:]\<close>: a negative start counts from the end and is clipped at the front.\<close>

definition py_slice_from :: "'a list \<Rightarrow> int \<Rightarrow> 'a list" where
  "py_slice_from xs k =
     (if k < 0 then drop (nat (int (length xs) + k)) xs else drop (nat k) xs)"

text \<open>
  \<open>occupancy[b:e] += 1\<close> for non-negative bounds: a slice is clipped at the end of the
  array, so only the indices \<open>i\<close> with \<open>b \<le> i < e\<close> that exist are incremented.
\<close>

definition slice_incr :: "int list \<Rightarrow> nat \<Rightarrow> nat \<Rightarrow> int list" where
  "slice_incr occ b e =
     map (\<lambda>(i, v). if b \<le> i \<and> i < e then v + 1 else v) (zip [0..<length occ] occ)"

section \<open>The data providers\<close>

text \<open>
  Dates are day numbers. A row of \<open>Hospitalisierung.csv\<close> and a row of
  \<open>CovidFaelle_Altersgruppe.csv\<close>, with the columns the code reads.
\<close>

record occupancy_row =
  Meldedatum :: int
  occ_Bundesland :: string
  IntensivBettenBelCovid19 :: int
  NormalBettenBelCovid19 :: int

record case_row =
  Time :: int
  case_Bundesland :: string
  Altersgruppe :: string
  Anzahl :: int

text \<open>\<open>OccupancyData.get_df\<close>: the (date, occupancy) rows of the frame, in file order.\<close>

definition occupancy_get_df ::
  "occupancy_row list \<Rightarrow> int \<Rightarrow> int \<Rightarrow> string \<Rightarrow> string \<Rightarrow> py_error + (int \<times> int) list" where
  "occupancy_get_df data from_d to_d st type =
     (if type = ''ICU'' then
        Inr (filter (\<lambda>(d, v). from_d \<le> d \<and> d \<le> to_d)
              (map (\<lambda>r. (Meldedatum r, IntensivBettenBelCovid19 r))
                (filter (\<lambda>r. occ_Bundesland r = st) data)))
      else if type = ''normal'' then
        Inr (filter (\<lambda>(d, v). from_d \<le> d \<and> d \<le> to_d)
              (map (\<lambda>r. (Meldedatum r, NormalBettenBelCovid19 r))
                (filter (\<lambda>r. occ_Bundesland r = st) data)))
      else Inl ValueError)"

definition occupancy_get_array ::
  "occupancy_row list \<Rightarrow> int \<Rightarrow> int \<Rightarrow> string \<Rightarrow> string \<Rightarrow> py_error + int list" where
  "occupancy_get_array data from_d to_d st type =
     (case occupancy_get_df data from_d to_d st type of
        Inl e \<Rightarrow> Inl e
      | Inr df \<Rightarrow> Inr (map snd df))"

text \<open>
  \<open>groupby(['Time']).sum()\<close>: one row per distinct date, dates ascending, the counts of
  the date added up.
\<close>

definition groupby_sum :: "case_row list \<Rightarrow> (int \<times> int) list" where
  "groupby_sum rows =
     map (\<lambda>d. (d, sum_list (map Anzahl (filter (\<lambda>r. Time r = d) rows))))
       (sort (remdups (map Time rows)))"

text \<open>\<open>Series.diff()\<close>: the first entry has no predecessor and is NaN (\<open>None\<close>).\<close>

fun diff_from :: "int \<Rightarrow> int list \<Rightarrow> int option list" where
  "diff_from prev [] = []"
| "diff_from prev (v # vs) = Some (v - prev) # diff_from v vs"

definition diff :: "int list \<Rightarrow> int option list" where
  "diff vs = (case vs of [] \<Rightarrow> [] | v # rest \<Rightarrow> None # diff_from v rest)"

text \<open>\<open>astype({"cases": int})\<close>: a NaN among the selected rows cannot be cast.\<close>

fun astype_int :: "(int \<times> int option) list \<Rightarrow> py_error + (int \<times> int) list" where
  "astype_int [] = Inr []"
| "astype_int ((d, None) # rest) = Inl IntCastingNaNError"
| "astype_int ((d, Some v) # rest) =
     (case astype_int rest of Inl e \<Rightarrow> Inl e | Inr out \<Rightarrow> Inr ((d, v) # out))"

definition case_get_df ::
  "case_row list \<Rightarrow> int \<Rightarrow> int \<Rightarrow> string \<Rightarrow> string list \<Rightarrow> int \<Rightarrow> py_error + (int \<times> int) list" where
  "case_get_df data from_d to_d st ages buf =
     (let start_date = from_d - buf;
          rows = filter (\<lambda>r. case_Bundesland r = st) data;
          rows = filter (\<lambda>r. Altersgruppe r \<in> set ages) rows;
          grouped = groupby_sum rows;
          diffed = zip (map fst grouped) (diff (map snd grouped));
          selected = filter (\<lambda>(d, v). start_date \<le> d \<and> d \<le> to_d) diffed
      in astype_int selected)"

definition case_get_array ::
  "case_row list \<Rightarrow> int \<Rightarrow> int \<Rightarrow> string \<Rightarrow> string list \<Rightarrow> int \<Rightarrow> py_error + int list" where
  "case_get_array data from_d to_d st ages buf =
     (case case_get_df data from_d to_d st ages buf of
        Inl e \<Rightarrow> Inl e
      | Inr df \<Rightarrow> Inr (map snd df))"

section \<open>Float64 arithmetic\<close>

text \<open>
  \<open>np.around\<close> rounds to the nearest integer and a value halfway between two integers
  to the even one.
\<close>

definition around :: "rat \<Rightarrow> int" where
  "around q =
     (let f = \<lfloor>q\<rfloor>; r = q - of_int f
      in if r < 1 / 2 then f else if 1 / 2 < r then f + 1 else if even f then f else f + 1)"

text \<open>
  A float64 is a rational with a significand of 53 bits. \<open>fl64\<close> rounds a rational to the
  nearest float64, ties to the even significand, as every IEEE operation rounds its exact
  result; below the normal range the spacing is \<open>2^-1074\<close>. \<open>ilog2\<close> is the floor of the binary
  logarithm of a positive rational.
\<close>

definition pow2 :: "int \<Rightarrow> rat" where
  "pow2 e = (if 0 \<le> e then of_int (2 ^ nat e) else 1 / of_int (2 ^ nat (- e)))"

definition ilog2 :: "rat \<Rightarrow> int" where
  "ilog2 q = (if 1 \<le> q then bitlen \<lfloor>q\<rfloor> - 1 else - bitlen (\<lceil>1 / q\<rceil> - 1))"

definition fl64 :: "rat \<Rightarrow> rat" where
  "fl64 q =
     (if q = 0 then 0
      else (let e = max (ilog2 \<bar>q\<bar> - 52) (- 1074) in of_int (around (q / pow2 e)) * pow2 e))"

text \<open>
  \<open>x * p\<close> for an integer \<open>x\<close> of the case array and a float parameter \<open>p\<close>: both operands
  become float64 and the exact product is rounded. A rational parameter of the model
  stands for the float64 nearest to it (what the decimal of a configuration file is read
  as). A product of \<open>2^1024\<close> or more in size is beyond the float64 range and infinite
  (\<open>None\<close>).
\<close>

definition np_multiply :: "int \<Rightarrow> rat \<Rightarrow> rat option" where
  "np_multiply x p =
     (let v = fl64 (fl64 (of_int x) * fl64 p)
      in if v \<noteq> 0 \<and> 1024 \<le> ilog2 \<bar>v\<bar> then None else Some v)"

text \<open>Results are gathered in order; the first exception met is raised.\<close>

fun collect :: "(py_error + 'a) list \<Rightarrow> py_error + 'a list" where
  "collect [] = Inr []"
| "collect (Inl e # rs) = Inl e"
| "collect (Inr v # rs) = (case collect rs of Inl e \<Rightarrow> Inl e | Inr vs \<Rightarrow> Inr (v # vs))"

section \<open>The causal model\<close>

text \<open>
  The attributes of \<open>CausalModel\<close>. A parameter is the rational value of its float.
  \<open>python_floats\<close> is the kind of number that \<open>truncnorm_loc\<close> and \<open>truncnorm_scale\<close> hold:
  Python numbers, as the constructor and a direct assignment leave them, or numpy floats,
  as the \<open>params\<close> setter stores them from the array it is given by the optimizer. Python
  raises on a division by zero where numpy warns and goes on.
\<close>

record model =
  hospitalization_p :: rat
  poisson_lambda :: rat
  truncnorm_loc :: rat
  truncnorm_scale :: rat
  simulation_seed :: int
  calibration_seed :: int
  python_floats :: bool
  case_data :: "case_row list"
  occupancy_data :: "occupancy_row list"
  state :: string
  bed_type :: string
  age_groups :: "string list"
  from_date :: int
  to_date :: int
  buffer :: int
  occupancy :: "int list"
  cases :: "int list"

text \<open>
  \<open>update\<close>: an omitted argument (\<open>None\<close>) keeps the stored value; both cached arrays
  are then read again from the providers.
\<close>

definition update ::
  "model \<Rightarrow> string option \<Rightarrow> string option \<Rightarrow> string list option \<Rightarrow> int option \<Rightarrow>
     int option \<Rightarrow> int option \<Rightarrow> py_error + model" where
  "update m st bt ag fd td bf =
     (let m = (case st of None \<Rightarrow> m | Some v \<Rightarrow> m\<lparr>state := v\<rparr>);
          m = (case bt of None \<Rightarrow> m | Some v \<Rightarrow> m\<lparr>bed_type := v\<rparr>);
          m = (case ag of None \<Rightarrow> m | Some v \<Rightarrow> m\<lparr>age_groups := v\<rparr>);
          m = (case fd of None \<Rightarrow> m | Some v \<Rightarrow> m\<lparr>from_date := v\<rparr>);
          m = (case td of None \<Rightarrow> m | Some v \<Rightarrow> m\<lparr>to_date := v\<rparr>);
          m = (case bf of None \<Rightarrow> m | Some v \<Rightarrow> m\<lparr>buffer := v\<rparr>)
      in case occupancy_get_array (occupancy_data m) (from_date m) (to_date m) (state m) (bed_type m) of
           Inl e \<Rightarrow> Inl e
         | Inr occ \<Rightarrow>
             (case case_get_array (case_data m) (from_date m) (to_date m) (state m) (age_groups m)
                     (buffer m) of
                Inl e \<Rightarrow> Inl e
              | Inr cs \<Rightarrow> Inr (m\<lparr>occupancy := occ, cases := cs\<rparr>)))"

definition params :: "model \<Rightarrow> rat list" where
  "params m = [hospitalization_p m, poisson_lambda m, truncnorm_loc m, truncnorm_scale m]"

text \<open>
  The setter reads \<open>value[0]\<close> to \<open>value[3]\<close>: a shorter vector raises. Its callers,
  \<open>_get_mape\<close> and \<open>calibrate\<close>, pass the optimizer's numpy arrays.
\<close>

definition set_params :: "model \<Rightarrow> rat list \<Rightarrow> py_error + model" where
  "set_params m v =
     (if length v < 4 then Inl IndexError
      else Inr (m\<lparr>hospitalization_p := v ! 0, poisson_lambda := v ! 1,
                  truncnorm_loc := v ! 2, truncnorm_scale := v ! 3, python_floats := False\<rparr>))"

subsection \<open>simulate\<close>

text \<open>
  The two library draws of \<open>simulate\<close> (the Poisson delays and the rounded
  truncated-normal stays, both from the generator seeded with the worker id and the
  simulation seed) are a parameter of the model: a sampler maps worker id, seed,
  \<open>poisson_lambda\<close>, \<open>truncnorm_loc\<close>, \<open>truncnorm_scale\<close> and the batch size to the two
  batches, or to the exception the library raises (a negative size, for one). Delays
  and stays are natural numbers: a Poisson draw and the rounded draw of a normal
  distribution truncated at 0 are never negative. The division \<open>(left - mean) / std\<close>
  comes first: with Python numbers a scale of zero raises there; with numpy floats it
  gives an infinite or undefined bound and the library is called with it.
\<close>

type_synonym sampler =
  "int \<Rightarrow> int \<Rightarrow> rat \<Rightarrow> rat \<Rightarrow> rat \<Rightarrow> int \<Rightarrow> py_error + (nat list \<times> nat list)"

text \<open>The inner loop \<open>for i in range(hospitalizations[t])\<close>, over the list of its \<open>i\<close>.\<close>

fun stay_loop :: "nat \<Rightarrow> nat list \<Rightarrow> nat list \<Rightarrow> int \<Rightarrow> nat list \<Rightarrow> int list \<Rightarrow> py_error + int list" where
  "stay_loop t delays stays pos [] occ = Inr occ"
| "stay_loop t delays stays pos (i # rest) occ =
     (case py_get delays (pos + int i) of
        Inl e \<Rightarrow> Inl e
      | Inr d \<Rightarrow>
          (case py_get stays (pos + int i) of
             Inl e \<Rightarrow> Inl e
           | Inr s \<Rightarrow>
               (let begin_stay = t + d; end_stay = begin_stay + s + 1
                in stay_loop t delays stays pos rest (slice_incr occ begin_stay end_stay))))"

text \<open>The outer loop \<open>for t in range(n)\<close>, over the days paired with their admissions.\<close>

fun day_loop :: "nat list \<Rightarrow> nat list \<Rightarrow> (nat \<times> int) list \<Rightarrow> int \<Rightarrow> int list \<Rightarrow> py_error + int list" where
  "day_loop delays stays [] pos occ = Inr occ"
| "day_loop delays stays ((t, h) # rest) pos occ =
     (case stay_loop t delays stays pos [0..<nat h] occ of
        Inl e \<Rightarrow> Inl e
      | Inr occ' \<Rightarrow> day_loop delays stays rest (pos + h) occ')"

text \<open>
  \<open>int(np.floor(x * self.hospitalization_p))\<close> for every entry of the case series: the
  floor of the float64 product. An infinite product cannot be converted.
\<close>

definition hospitalizations_of :: "model \<Rightarrow> py_error + int list" where
  "hospitalizations_of m =
     collect (map (\<lambda>x. case np_multiply x (hospitalization_p m) of
                          None \<Rightarrow> Inl OverflowError
                        | Some v \<Rightarrow> Inr \<lfloor>v\<rfloor>) (cases m))"

definition simulate :: "sampler \<Rightarrow> model \<Rightarrow> int \<Rightarrow> py_error + int list" where
  "simulate smp m worker_id =
     (let n = length (cases m) in
      if truncnorm_scale m = 0 \<and> python_floats m then Inl ZeroDivisionError
      else
        (case hospitalizations_of m of
           Inl e \<Rightarrow> Inl e
         | Inr hospitalizations \<Rightarrow>
             (case smp worker_id (simulation_seed m) (poisson_lambda m) (truncnorm_loc m)
                     (truncnorm_scale m) (sum_list hospitalizations) of
                Inl e \<Rightarrow> Inl e
              | Inr (delays, stays) \<Rightarrow>
                  (case day_loop delays stays (zip [0..<n] hospitalizations) 0 (replicate n 0) of
                     Inl e \<Rightarrow> Inl e
                   | Inr occ \<Rightarrow> Inr (py_slice_from occ (buffer m))))))"

subsection \<open>monte_carlo\<close>

text \<open>
  \<open>np.around(np.mean(np.array(simulations), axis=0)).astype(int)\<close>: the mean over the
  replicas, position by position. Replicas of different lengths do not stack.
\<close>

definition mean_around :: "int list list \<Rightarrow> py_error + int list" where
  "mean_around sims =
     (if sims = [] then Inl NotASeries
      else if list_ex (\<lambda>r. length r \<noteq> length (hd sims)) sims then Inl ValueError
      else Inr (map (\<lambda>j. around (of_int (sum_list (map (\<lambda>r. r ! j) sims)) / of_nat (length sims)))
                  [0..<length (hd sims)]))"

definition monte_carlo :: "sampler \<Rightarrow> model \<Rightarrow> int \<Rightarrow> string \<Rightarrow> py_error + int list" where
  "monte_carlo smp m n method =
     (if method = ''parallel'' then
        (case collect (map (\<lambda>worker_id. simulate smp m (int worker_id)) [0..<nat n]) of
           Inl e \<Rightarrow> Inl e
         | Inr results \<Rightarrow> mean_around results)
      else if method = ''sequential'' then
        (case collect (map (\<lambda>i. simulate smp m (int i)) [0..<nat n]) of
           Inl e \<Rightarrow> Inl e
         | Inr simulations \<Rightarrow> mean_around simulations)
      else Inl ValueError)"

subsection \<open>The objective\<close>

text \<open>
  A float64 result: a finite value (kept exact) or one of the IEEE special values that
  numpy returns, with a warning and no exception, where a division has no finite result.
\<close>

datatype npfloat = Fin rat | PInf | NInf | NaN

fun np_add :: "npfloat \<Rightarrow> npfloat \<Rightarrow> npfloat" where
  "np_add (Fin a) (Fin b) = Fin (a + b)"
| "np_add NaN v = NaN"
| "np_add v NaN = NaN"
| "np_add PInf NInf = NaN"
| "np_add NInf PInf = NaN"
| "np_add PInf v = PInf"
| "np_add v PInf = PInf"
| "np_add NInf v = NInf"
| "np_add v NInf = NInf"

text \<open>Integer array divided by integer array: true division in float64.\<close>

definition true_divide :: "int \<Rightarrow> int \<Rightarrow> npfloat" where
  "true_divide a b =
     (if b \<noteq> 0 then Fin (of_int a / of_int b)
      else if 0 < a then PInf else if a < 0 then NInf else NaN)"

definition np_mean :: "npfloat list \<Rightarrow> npfloat" where
  "np_mean xs =
     (if xs = [] then NaN
      else case foldl np_add (Fin 0) xs of Fin s \<Rightarrow> Fin (s / of_nat (length xs)) | v \<Rightarrow> v)"

definition times100 :: "npfloat \<Rightarrow> npfloat" where
  "times100 v = (case v of Fin q \<Rightarrow> Fin (q * 100) | w \<Rightarrow> w)"

text \<open>Two one-dimensional arrays combine when they are as long or one has one entry.\<close>

definition broadcast2 :: "int list \<Rightarrow> int list \<Rightarrow> py_error + (int \<times> int) list" where
  "broadcast2 xs ys =
     (if length xs = length ys then Inr (zip xs ys)
      else if length xs = 1 then Inr (map (\<lambda>y. (hd xs, y)) ys)
      else if length ys = 1 then Inr (map (\<lambda>x. (x, hd ys)) xs)
      else Inl ValueError)"

definition mape :: "int list \<Rightarrow> int list \<Rightarrow> py_error + npfloat" where
  "mape actual pred =
     (case broadcast2 actual pred of
        Inl e \<Rightarrow> Inl e
      | Inr pairs \<Rightarrow> Inr (times100 (np_mean (map (\<lambda>(a, p). true_divide \<bar>a - p\<bar> a) pairs))))"

text \<open>\<open>_get_mape\<close>: the candidate becomes the live parameter vector, then is scored.\<close>

definition get_mape :: "sampler \<Rightarrow> model \<Rightarrow> rat list \<Rightarrow> int \<Rightarrow> string \<Rightarrow> py_error + (npfloat \<times> model)" where
  "get_mape smp m ps n method =
     (case set_params m ps of
        Inl e \<Rightarrow> Inl e
      | Inr m' \<Rightarrow>
          (case monte_carlo smp m' n method of
             Inl e \<Rightarrow> Inl e
           | Inr simulation \<Rightarrow>
               (case mape (occupancy m') simulation of
                  Inl e \<Rightarrow> Inl e
                | Inr v \<Rightarrow> Inr (v, m'))))"

subsection \<open>predict\<close>

definition predict :: "sampler \<Rightarrow> model \<Rightarrow> int \<Rightarrow> int \<Rightarrow> string \<Rightarrow> py_error + (int list \<times> model)" where
  "predict smp m days n method =
     (let td = to_date m in
      case update m None None None None (Some (td + days)) None of
        Inl e \<Rightarrow> Inl e
      | Inr m1 \<Rightarrow>
          (case monte_carlo smp m1 n method of
             Inl e \<Rightarrow> Inl e
           | Inr simulation \<Rightarrow>
               (case update m1 None None None None (Some td) None of
                  Inl e \<Rightarrow> Inl e
                | Inr m2 \<Rightarrow> Inr (py_slice_from simulation (- days), m2))))"

subsection \<open>calibrate\<close>

text \<open>
  \<open>scipy.optimize.differential_evolution\<close> is a library routine and a parameter of the
  model. It receives the objective, the bounds, \<open>maxiter\<close>, the optional start vector
  and the calibration seed (the remaining arguments of the call are constants), and
  returns an \<open>OptimizeResult\<close> with the fields \<open>x\<close> and \<open>fun\<close>, or raises.
  The objective it receives is \<open>_get_mape\<close> with \<open>(n, 'sequential')\<close>. The call sets
  \<open>workers=-1\<close>: the objective is evaluated in pool processes, each on a copy of the
  model, so an evaluation yields its value and leaves the caller's model as it is. The
  value does not depend on the live parameters, which \<open>_get_mape\<close> overwrites first.
\<close>

record opt_result =
  opt_x :: "rat list"
  opt_fun :: npfloat

type_synonym optimizer =
  "(rat list \<Rightarrow> py_error + npfloat) \<Rightarrow> (rat \<times> rat) list \<Rightarrow> int \<Rightarrow> rat list option \<Rightarrow> int
     \<Rightarrow> py_error + opt_result"

definition calibrate ::
  "sampler \<Rightarrow> optimizer \<Rightarrow> model \<Rightarrow> int \<Rightarrow> (rat \<times> rat) list \<Rightarrow> int \<Rightarrow> bool
     \<Rightarrow> py_error + (opt_result \<times> model)" where
  "calibrate smp de m n bounds maxiter use_x0 =
     (let x0 = (if use_x0 then Some (params m) else None) in
      case de (\<lambda>ps. map_sum id fst (get_mape smp m ps n ''sequential'')) bounds maxiter x0
             (calibration_seed m) of
        Inl e \<Rightarrow> Inl e
      | Inr result \<Rightarrow>
          (case set_params m (opt_x result) of
             Inl e \<Rightarrow> Inl e
           | Inr m' \<Rightarrow> Inr (result, m')))"

text \<open>A vector lies within the bounds: one component per bound, each inside its pair.\<close>

definition in_bounds :: "(rat \<times> rat) list \<Rightarrow> rat list \<Rightarrow> bool" where
  "in_bounds bounds xs = list_all2 (\<lambda>(lo, hi) v. lo \<le> v \<and> v \<le> hi) bounds xs"

text \<open>
  The contract of the optimizer that the bounds property rests on: whenever it returns,
  the vector it returns lies within the bounds it was given.
\<close>

definition respects_bounds :: "optimizer \<Rightarrow> bool" where
  "respects_bounds de =
     (\<forall>obj bounds maxiter x0 seed r.
        de obj bounds maxiter x0 seed = Inr r \<longrightarrow> in_bounds bounds (opt_x r))"

section \<open>The simulation, as the admissions it adds up\<close>

text \<open>
  The admissions in loop order, each a pair of its day \<open>t\<close> and the index of its draw in
  the batch; \<open>beds_on\<close> counts the admissions whose interval \<open>[t+d, t+d+s+1)\<close> holds a day.
\<close>

fun adm_list :: "(nat \<times> int) list \<Rightarrow> nat \<Rightarrow> (nat \<times> nat) list" where
  "adm_list [] p = []"
| "adm_list ((t, h) # rest) p = map (\<lambda>i. (t, p + i)) [0..<nat h] @ adm_list rest (p + nat h)"

definition admissions :: "int list \<Rightarrow> (nat \<times> nat) list" where
  "admissions hs = adm_list (zip [0..<length hs] hs) 0"

definition beds_on :: "nat list \<Rightarrow> nat list \<Rightarrow> (nat \<times> nat) list \<Rightarrow> nat \<Rightarrow> nat" where
  "beds_on delays stays adm j =
     length (filter (\<lambda>(t, k). t + delays ! k \<le> j \<and> j < t + delays ! k + stays ! k + 1) adm)"

definition step :: "nat list \<Rightarrow> nat list \<Rightarrow> nat \<times> nat \<Rightarrow> int list \<Rightarrow> int list" where
  "step delays stays a occ =
     slice_incr occ (fst a + delays ! snd a) (fst a + delays ! snd a + stays ! snd a + 1)"

section \<open>Example inputs\<close>

text \<open>A sampler with every delay 0 and every stay 3, and one whose stays equal the worker id.\<close>

definition smp_fixed :: sampler where
  "smp_fixed w seed lam loc sc k =
     (if k < 0 then Inl ValueError else Inr (replicate (nat k) 0, replicate (nat k) 3))"

definition smp_by_worker :: sampler where
  "smp_by_worker w seed lam loc sc k =
     (if k < 0 then Inl ValueError else Inr (replicate (nat k) 0, replicate (nat k) (nat w)))"

text \<open>An optimizer that rejects reversed bounds and returns the lower corner of the box.\<close>

definition corner_optimizer :: optimizer where
  "corner_optimizer obj bounds maxiter x0 seed =
     (if list_ex (\<lambda>(lo, hi). hi < lo) bounds then Inl ValueError
      else case obj (map fst bounds) of
             Inl e \<Rightarrow> Inl e
           | Inr v \<Rightarrow> Inr \<lparr>opt_x = map fst bounds, opt_fun = v\<rparr>)"

definition demo_occupancy :: "occupancy_row list" where
  "demo_occupancy =
     [\<lparr>Meldedatum = 1, occ_Bundesland = ''Wien'', IntensivBettenBelCovid19 = 2, NormalBettenBelCovid19 = 10\<rparr>,
      \<lparr>Meldedatum = 2, occ_Bundesland = ''Wien'', IntensivBettenBelCovid19 = 3, NormalBettenBelCovid19 = 20\<rparr>,
      \<lparr>Meldedatum = 3, occ_Bundesland = ''Wien'', IntensivBettenBelCovid19 = 6, NormalBettenBelCovid19 = 30\<rparr>,
      \<lparr>Meldedatum = 4, occ_Bundesland = ''Wien'', IntensivBettenBelCovid19 = 0, NormalBettenBelCovid19 = 40\<rparr>]"

definition demo_cases :: "case_row list" where
  "demo_cases =
     [\<lparr>Time = 0, case_Bundesland = ''Wien'', Altersgruppe = ''<5'', Anzahl = 0\<rparr>,
      \<lparr>Time = 1, case_Bundesland = ''Wien'', Altersgruppe = ''<5'', Anzahl = 2\<rparr>,
      \<lparr>Time = 2, case_Bundesland = ''Wien'', Altersgruppe = ''<5'', Anzahl = 3\<rparr>,
      \<lparr>Time = 3, case_Bundesland = ''Wien'', Altersgruppe = ''<5'', Anzahl = 3\<rparr>,
      \<lparr>Time = 4, case_Bundesland = ''Wien'', Altersgruppe = ''<5'', Anzahl = 4\<rparr>,
      \<lparr>Time = 5, case_Bundesland = ''Wien'', Altersgruppe = ''<5'', Anzahl = 6\<rparr>]"

text \<open>The model on the window of days 2 to 3 with one buffer day, and on days 3 to 4.\<close>

definition demo :: model where
  "demo = \<lparr>hospitalization_p = 1, poisson_lambda = 0, truncnorm_loc = 3, truncnorm_scale = 1,
     simulation_seed = 7, calibration_seed = 9, python_floats = False, case_data = demo_cases,
     occupancy_data = demo_occupancy, state = ''Wien'', bed_type = ''ICU'', age_groups = [''<5''],
     from_date = 2, to_date = 3, buffer = 1, occupancy = [3, 6], cases = [2, 1, 0]\<rparr>"

definition demo_late :: model where
  "demo_late = demo\<lparr>from_date := 3, to_date := 4, occupancy := [6, 0], cases := [1, 0, 1]\<rparr>"

text \<open>
  Models with a parameter that is no float64 as a decimal (0.6), with a negative entry in
  the case series (a cumulative count that went down), and with a scale of zero.
\<close>

definition demo_float :: model where
  "demo_float = demo\<lparr>hospitalization_p := 3 / 5, cases := [5, 1, 0]\<rparr>"

definition demo_negative :: model where
  "demo_negative = demo\<lparr>cases := [- 2, 3]\<rparr>"

definition demo_zero_scale :: model where
  "demo_zero_scale = demo\<lparr>truncnorm_scale := 0, python_floats := True\<rparr>"

section \<open>Slices and rounding\<close>

lemma length_slice_incr: "length (slice_incr occ b e) = length occ"
  by (simp add: slice_incr_def)

lemma nth_slice_incr:
  "j < length occ \<Longrightarrow> slice_incr occ b e ! j = occ ! j + (if b \<le> j \<and> j < e then 1 else 0)"
  by (simp add: slice_incr_def)

lemma collect_map_Inr:
  "collect (map f xs) = Inr ys \<Longrightarrow> map f xs = map Inr ys"
proof (induction xs arbitrary: ys)
  case Nil
  then show ?case by simp
next
  case (Cons x xs)
  then show ?case
    by (cases "f x"; cases "collect (map f xs)") auto
qed

lemma around_of_int: "around (of_int k) = k"
  by (simp add: around_def)

lemma mean_around_single: "mean_around [r] = Inr r"
  by (simp add: mean_around_def around_of_int map_nth)

section \<open>Monte Carlo of one replica\<close>

text \<open>
  Claim C2. For every model state, sampler and both execution modes,
  \<open>monte_carlo(1, mode)\<close> returns exactly what \<open>simulate(0)\<close> returns (the same series,
  or the same exception): the mean of one replica is the replica, and rounding an
  integer changes nothing.
\<close>

theorem monte_carlo_of_one:
  "monte_carlo smp m 1 ''parallel'' = simulate smp m 0 \<and>
   monte_carlo smp m 1 ''sequential'' = simulate smp m 0"
  by (cases "simulate smp m 0") (simp_all add: monte_carlo_def mean_around_single)

section \<open>The simulation loops\<close>

lemma py_get_nat: "p + i < length xs \<Longrightarrow> py_get xs (int p + int i) = Inr (xs ! (p + i))"
  by (simp add: py_get_def nat_add_distrib)

lemma stay_loop_fold:
  "\<forall>i \<in> set is. p + i < length delays \<and> p + i < length stays \<Longrightarrow>
   stay_loop t delays stays (int p) is occ
     = Inr (fold (step delays stays) (map (\<lambda>i. (t, p + i)) is) occ)"
proof (induction "is" arbitrary: occ)
  case Nil
  then show ?case by simp
next
  case (Cons i rest)
  then show ?case by (simp add: py_get_nat step_def Let_def)
qed

lemma day_loop_fold:
  "\<forall>(t, h) \<in> set ths. 0 \<le> h \<Longrightarrow>
   p + nat (sum_list (map snd ths)) \<le> length delays \<Longrightarrow>
   p + nat (sum_list (map snd ths)) \<le> length stays \<Longrightarrow>
   day_loop delays stays ths (int p) occ = Inr (fold (step delays stays) (adm_list ths p) occ)"
proof (induction ths arbitrary: p occ)
  case Nil
  then show ?case by simp
next
  case (Cons th rest)
  obtain t h where th: "th = (t, h)" by (cases th)
  from Cons.prems th have h0: "0 \<le> h" and rest0: "\<forall>(t, h) \<in> set rest. 0 \<le> h" by auto
  have sum0: "0 \<le> sum_list (map snd rest)"
    using rest0 by (intro sum_list_nonneg) auto
  have split: "nat (sum_list (map snd (th # rest))) = nat h + nat (sum_list (map snd rest))"
    using h0 sum0 th by (simp add: nat_add_distrib)
  have inner: "stay_loop t delays stays (int p) [0..<nat h] occ
      = Inr (fold (step delays stays) (map (\<lambda>i. (t, p + i)) [0..<nat h]) occ)"
    using Cons.prems(2,3) split by (intro stay_loop_fold) auto
  have pos: "int p + h = int (p + nat h)" using h0 by simp
  have outer: "day_loop delays stays rest (int (p + nat h)) occ'
      = Inr (fold (step delays stays) (adm_list rest (p + nat h)) occ')" for occ'
    using Cons.prems(2,3) split rest0 by (intro Cons.IH) auto
  have "day_loop delays stays (th # rest) (int p) occ
      = day_loop delays stays rest (int p + h)
          (fold (step delays stays) (map (\<lambda>i. (t, p + i)) [0..<nat h]) occ)"
    unfolding th by (simp add: inner)
  also have "\<dots> = Inr (fold (step delays stays) (adm_list rest (p + nat h))
          (fold (step delays stays) (map (\<lambda>i. (t, p + i)) [0..<nat h]) occ))"
    unfolding pos by (rule outer)
  finally show ?case unfolding th by simp
qed

lemma length_fold_step: "length (fold (step delays stays) adm occ) = length occ"
  by (induction adm arbitrary: occ) (simp_all add: step_def length_slice_incr)

lemma nth_fold_step:
  "j < length occ \<Longrightarrow>
   fold (step delays stays) adm occ ! j = occ ! j + int (beds_on delays stays adm j)"
proof (induction adm arbitrary: occ)
  case Nil
  then show ?case by (simp add: beds_on_def)
next
  case (Cons a adm)
  obtain t k where a: "a = (t, k)" by (cases a)
  have len: "j < length (step delays stays a occ)"
    using Cons.prems by (simp add: step_def length_slice_incr)
  have "fold (step delays stays) (a # adm) occ ! j
      = step delays stays a occ ! j + int (beds_on delays stays adm j)"
    using Cons.IH [OF len] by simp
  also have "step delays stays a occ ! j
      = occ ! j + (if t + delays ! k \<le> j \<and> j < t + delays ! k + stays ! k + 1 then 1 else 0)"
    using Cons.prems by (simp add: step_def nth_slice_incr a)
  finally show ?case by (simp add: beds_on_def a)
qed

lemma fold_step_zero:
  "fold (step delays stays) adm (replicate n 0)
     = map (\<lambda>j. int (beds_on delays stays adm j)) [0..<n]"
  by (rule nth_equalityI) (simp_all add: length_fold_step nth_fold_step)

lemma adm_list_snd: "\<forall>(t, h) \<in> set ths. 0 \<le> h \<Longrightarrow>
   map snd (adm_list ths p) = [p..<p + nat (sum_list (map snd ths))]"
proof (induction ths arbitrary: p)
  case Nil
  then show ?case by simp
next
  case (Cons th rest)
  obtain t h where th: "th = (t, h)" by (cases th)
  from Cons.prems th have h0: "0 \<le> h" and rest0: "\<forall>(t, h) \<in> set rest. 0 \<le> h" by auto
  have sum0: "0 \<le> sum_list (map snd rest)"
    using rest0 by (intro sum_list_nonneg) auto
  have split: "nat (sum_list (map snd (th # rest))) = nat h + nat (sum_list (map snd rest))"
    using h0 sum0 th by (simp add: nat_add_distrib)
  have shift: "map (\<lambda>i. p + i) [0..<nat h] = [p..<p + nat h]"
    using map_add_upt [of p "nat h"] by (simp add: add.commute)
  have "map snd (adm_list (th # rest) p)
      = [p..<p + nat h] @ [p + nat h..<p + nat h + nat (sum_list (map snd rest))]"
    unfolding th using Cons.IH [OF rest0, of "p + nat h"] shift by (simp add: o_def)
  also have "\<dots> = [p..<p + nat h + nat (sum_list (map snd rest))]"
    by (simp add: upt_add_eq_append [symmetric])
  finally show ?case using split by (simp add: add.assoc)
qed


lemma count_adm_list:
  "length (filter (\<lambda>(t', k). t' = t) (adm_list ths p))
     = sum_list (map (\<lambda>(t', h). if t' = t then nat h else 0) ths)"
  by (induction ths p rule: adm_list.induct) (simp_all add: o_def)

lemma zip_upt_nth: "zip [0..<length hs] hs = map (\<lambda>i. (i, hs ! i)) [0..<length hs]"
  by (rule nth_equalityI) simp_all

lemma count_admissions:
  assumes "t < length hs"
  shows "length (filter (\<lambda>(t', k). t' = t) (admissions hs)) = nat (hs ! t)"
proof -
  have "length (filter (\<lambda>(t', k). t' = t) (admissions hs))
      = sum_list (map (\<lambda>i. if i = t then nat (hs ! i) else 0) [0..<length hs])"
    unfolding admissions_def count_adm_list by (subst zip_upt_nth) (simp add: o_def)
  also have "\<dots> = (\<Sum>i = 0..<length hs. if i = t then nat (hs ! i) else 0)"
    by (simp add: interv_sum_list_conv_sum_set_nat)
  also have "\<dots> = nat (hs ! t)"
    using assms by simp
  finally show ?thesis .
qed

lemma hospitalizations_pairs:
  "\<forall>h \<in> set hs. (0::int) \<le> h \<Longrightarrow> \<forall>(t, h) \<in> set (zip [0..<length hs] hs). 0 \<le> h"
  by (auto dest: set_zip_rightD)

text \<open>
  The float64 product decides the floor: 5 times 0.6 is 3 (the exact product of 5 and the
  float 0.6 lies below 3), and 100 times 0.29 is below 29.
\<close>

lemma np_multiply_examples:
  "map_option floor (np_multiply 5 (3 / 5)) = Some 3
   \<and> map_option floor (np_multiply 100 (29 / 100)) = Some 28
   \<and> map_option floor (np_multiply 10 (7 / 10)) = Some 7
   \<and> np_multiply 3 (1 / 10) = Some (1351079888211149 / 4503599627370496)"
  by code_simp

lemma hospitalizations_of_Inr:
  assumes "hospitalizations_of m = Inr hs"
  shows "length hs = length (cases m)
    \<and> map Some hs = map (\<lambda>x. map_option floor (np_multiply x (hospitalization_p m))) (cases m)"
proof -
  let ?f = "\<lambda>x. case np_multiply x (hospitalization_p m) of
                   None \<Rightarrow> (Inl OverflowError :: py_error + int) | Some v \<Rightarrow> Inr \<lfloor>v\<rfloor>"
  have eq: "map ?f (cases m) = map Inr hs"
    using assms unfolding hospitalizations_of_def by (rule collect_map_Inr)
  then have len: "length hs = length (cases m)"
    by (metis length_map)
  have "map Some hs ! i = map (\<lambda>x. map_option floor (np_multiply x (hospitalization_p m))) (cases m) ! i"
    if "i < length hs" for i
  proof -
    from eq have "map ?f (cases m) ! i = map Inr hs ! i" by simp
    then have "?f (cases m ! i) = Inr (hs ! i)" using that len by simp
    then have mo: "map_option floor (np_multiply (cases m ! i) (hospitalization_p m)) = Some (hs ! i)"
      by (cases "np_multiply (cases m ! i) (hospitalization_p m)") auto
    show ?thesis using that len by (simp add: mo)
  qed
  then have "map Some hs = map (\<lambda>x. map_option floor (np_multiply x (hospitalization_p m))) (cases m)"
    using len by (intro nth_equalityI) simp_all
  with len show ?thesis by simp
qed

lemma simulate_fold:
  assumes "truncnorm_scale m \<noteq> 0"
    and "hospitalizations_of m = Inr hs"
    and "\<forall>h \<in> set hs. 0 \<le> h"
    and "smp w (simulation_seed m) (poisson_lambda m) (truncnorm_loc m) (truncnorm_scale m)
           (sum_list hs) = Inr (delays, stays)"
    and "length delays = nat (sum_list hs)"
    and "length stays = nat (sum_list hs)"
  shows "simulate smp m w
      = Inr (py_slice_from
               (fold (step delays stays) (admissions hs) (replicate (length (cases m)) 0))
               (buffer m))"
proof -
  have len: "length hs = length (cases m)"
    using hospitalizations_of_Inr [OF assms(2)] by simp
  have snd_zip: "map snd (zip [0..<length hs] hs) = hs" by simp
  have "day_loop delays stays (zip [0..<length hs] hs) (int 0) (replicate (length hs) 0)
     = Inr (fold (step delays stays) (adm_list (zip [0..<length hs] hs) 0) (replicate (length hs) 0))"
  proof (rule day_loop_fold)
    show "\<forall>(t, h) \<in> set (zip [0..<length hs] hs). 0 \<le> h"
      by (rule hospitalizations_pairs [OF assms(3)])
    show "0 + nat (sum_list (map snd (zip [0..<length hs] hs))) \<le> length delays"
      unfolding snd_zip using assms(5) by simp
    show "0 + nat (sum_list (map snd (zip [0..<length hs] hs))) \<le> length stays"
      unfolding snd_zip using assms(6) by simp
  qed
  then have "day_loop delays stays (zip [0..<length (cases m)] hs) 0 (replicate (length (cases m)) 0)
     = Inr (fold (step delays stays) (admissions hs) (replicate (length (cases m)) 0))"
    by (simp add: admissions_def len)
  then show ?thesis
    using assms(1,2,4) by (simp add: simulate_def Let_def)
qed

text \<open>
  Claim C1, amended. When every day has a non-negative number of admissions, the scale is
  not zero and the sampler delivers a batch of the requested size, \<open>simulate\<close> admits on day
  \<open>t\<close> the floor of the float64 product \<open>cases[t] * hospitalization_p\<close>, uses draw \<open>k\<close> of the
  one batch (sized to the total admission count) for the \<open>k\<close>-th admission in loop order,
  and the occupancy array, which has one entry per day of the buffered case series,
  counts on each of its days \<open>j\<close> the admissions with \<open>t+d \<le> j < t+d+s+1\<close>; the first
  \<open>buffer\<close> entries are then stripped. Days of an interval beyond the array are not counted.
\<close>

theorem simulate_clipped_intervals:
  assumes "truncnorm_scale m \<noteq> 0"
    and "hospitalizations_of m = Inr hs"
    and "\<forall>h \<in> set hs. 0 \<le> h"
    and "smp w (simulation_seed m) (poisson_lambda m) (truncnorm_loc m) (truncnorm_scale m)
           (sum_list hs) = Inr (delays, stays)"
    and "length delays = nat (sum_list hs)"
    and "length stays = nat (sum_list hs)"
  shows "simulate smp m w
      = Inr (py_slice_from
              (map (\<lambda>j. int (beds_on delays stays (admissions hs) j)) [0..<length (cases m)])
              (buffer m))
    \<and> map Some hs = map (\<lambda>x. map_option floor (np_multiply x (hospitalization_p m))) (cases m)
    \<and> (\<forall>t < length (cases m).
          length (filter (\<lambda>(t', k). t' = t) (admissions hs)) = nat (hs ! t))
    \<and> map snd (admissions hs) = [0..<nat (sum_list hs)]"
proof -
  have len: "length hs = length (cases m)"
    and floors: "map Some hs
      = map (\<lambda>x. map_option floor (np_multiply x (hospitalization_p m))) (cases m)"
    using hospitalizations_of_Inr [OF assms(2)] by simp_all
  have sim: "simulate smp m w
      = Inr (py_slice_from (map (\<lambda>j. int (beds_on delays stays (admissions hs) j))
               [0..<length (cases m)]) (buffer m))"
    using simulate_fold [where smp = smp and w = w, OF assms] by (simp only: fold_step_zero)
  have count: "\<forall>t < length (cases m).
      length (filter (\<lambda>(t', k). t' = t) (admissions hs)) = nat (hs ! t)"
    using count_admissions [of _ hs] len by simp
  have draws: "map snd (admissions hs) = [0..<nat (sum_list hs)]"
    using adm_list_snd [OF hospitalizations_pairs [OF assms(3)], of 0] by (simp add: admissions_def)
  show ?thesis using sim floors count draws by (intro conjI)
qed

text \<open>
  Witness for C1: five cases and the parameter 0.6 give three admissions on day 0 (the
  float64 product is 3, the exact product of 5 and the float 0.6 is below 3); delays 0,
  stays 3.
\<close>

theorem simulate_clipped_intervals_witness:
  "truncnorm_scale demo_float \<noteq> 0
   \<and> hospitalizations_of demo_float = Inr [3, 0, 0]
   \<and> smp_fixed 0 (simulation_seed demo_float) (poisson_lambda demo_float) (truncnorm_loc demo_float)
        (truncnorm_scale demo_float) (sum_list [3, 0, 0]) = Inr ([0, 0, 0], [3, 3, 3])
   \<and> simulate smp_fixed demo_float 0 = Inr [3, 3]"
proof -
  have h1: "truncnorm_scale demo_float \<noteq> 0" by (simp add: demo_float_def demo_def)
  have h2: "hospitalizations_of demo_float = Inr [3, 0, 0]" by code_simp
  have h3: "\<forall>h \<in> set [3, 0, 0 :: int]. 0 \<le> h" by simp
  have h4: "smp_fixed 0 (simulation_seed demo_float) (poisson_lambda demo_float)
        (truncnorm_loc demo_float) (truncnorm_scale demo_float) (sum_list [3, 0, 0])
      = Inr ([0, 0, 0], [3, 3, 3])"
    by code_simp
  have h5: "length [0, 0, 0 :: nat] = nat (sum_list [3, 0, 0])" by simp
  have h6: "length [3, 3, 3 :: nat] = nat (sum_list [3, 0, 0])" by simp
  have "simulate smp_fixed demo_float 0
      = Inr (py_slice_from
              (map (\<lambda>j. int (beds_on [0, 0, 0] [3, 3, 3] (admissions [3, 0, 0]) j))
                 [0..<length (cases demo_float)])
              (buffer demo_float))"
    using simulate_clipped_intervals [where smp = smp_fixed and m = demo_float and w = 0,
        OF h1 h2 h3 h4 h5 h6]
    by (rule conjunct1)
  also have "py_slice_from
              (map (\<lambda>j. int (beds_on [0, 0, 0] [3, 3, 3] (admissions [3, 0, 0]) j))
                 [0..<length (cases demo_float)])
              (buffer demo_float) = [3, 3]"
    by code_simp
  finally have sim: "simulate smp_fixed demo_float 0 = Inr [3, 3]" .
  show ?thesis by (intro conjI h1 h2 h4 sim)
qed

text \<open>
  Counterexample to C1 as stated: the admission of day 1 with delay 0 and stay 3 occupies
  the days 1 to 4, but the occupancy array has the three entries of the case series, so
  the days 3 and 4 are not counted anywhere.
\<close>

theorem simulate_lookahead_counterexample:
  "simulate smp_fixed demo 0 = Inr [3, 3]
   \<and> hospitalizations_of demo = Inr [2, 1, 0]
   \<and> smp_fixed 0 (simulation_seed demo) (poisson_lambda demo) (truncnorm_loc demo)
        (truncnorm_scale demo) 3 = Inr ([0, 0, 0], [3, 3, 3])
   \<and> length (cases demo) < 1 + 0 + 3 + 1"
  by code_simp

section \<open>Totality and clipping of the simulation\<close>

lemma card_window: "card {j \<in> {0..<n}. b \<le> j \<and> j < e} = min e n - min b n"
proof -
  have "{j \<in> {0..<n}. b \<le> j \<and> j < e} = {b..<min e n}" by auto
  then show ?thesis by auto
qed

lemma sum_list_slice_incr:
  "sum_list (slice_incr occ b e) = sum_list occ + int (min e (length occ) - min b (length occ))"
proof -
  let ?n = "length occ"
  have "sum_list (slice_incr occ b e) = (\<Sum>j = 0..<?n. slice_incr occ b e ! j)"
    by (simp add: sum_list_sum_nth length_slice_incr)
  also have "\<dots> = (\<Sum>j = 0..<?n. occ ! j + (if b \<le> j \<and> j < e then 1 else 0))"
    by (rule sum.cong) (simp_all add: nth_slice_incr)
  also have "\<dots> = sum_list occ + (\<Sum>j = 0..<?n. if b \<le> j \<and> j < e then 1 else 0)"
    by (simp add: sum.distrib sum_list_sum_nth)
  also have "(\<Sum>j = 0..<?n. if b \<le> j \<and> j < e then (1::int) else 0)
      = int (card {j \<in> {0..<?n}. b \<le> j \<and> j < e})"
    by (simp add: sum.inter_filter [symmetric])
  finally show ?thesis by (simp only: card_window)
qed

lemma length_step: "length (step delays stays a occ) = length occ"
  by (simp add: step_def length_slice_incr)

lemma sum_list_step:
  "sum_list (step delays stays (t, k) occ)
     = sum_list occ + int (min (t + delays ! k + stays ! k + 1) (length occ)
                           - min (t + delays ! k) (length occ))"
  unfolding step_def by (simp only: fst_conv snd_conv sum_list_slice_incr)

lemma sum_list_fold_step:
  "sum_list (fold (step delays stays) adm occ)
     = sum_list occ
       + (\<Sum>(t, k) \<leftarrow> adm. int (min (t + delays ! k + stays ! k + 1) (length occ)
                                   - min (t + delays ! k) (length occ)))"
proof (induction adm arbitrary: occ)
  case Nil
  then show ?case by simp
next
  case (Cons a adm)
  obtain t k where a: "a = (t, k)" by (cases a)
  let ?rest = "\<Sum>(t, k) \<leftarrow> adm. int (min (t + delays ! k + stays ! k + 1) (length occ)
                                   - min (t + delays ! k) (length occ))"
  have "sum_list (fold (step delays stays) (a # adm) occ)
      = sum_list (fold (step delays stays) adm (step delays stays a occ))"
    by simp
  also have "\<dots> = sum_list (step delays stays a occ) + ?rest"
    using Cons.IH [of "step delays stays a occ"] by (simp only: length_step)
  also have "sum_list (step delays stays a occ)
      = sum_list occ + int (min (t + delays ! k + stays ! k + 1) (length occ)
                            - min (t + delays ! k) (length occ))"
    unfolding a by (rule sum_list_step)
  finally show ?case unfolding a by simp
qed

lemma length_py_slice_from:
  "length xs = length ys \<Longrightarrow> length (py_slice_from xs k) = length (py_slice_from ys k)"
  by (simp add: py_slice_from_def)

text \<open>
  Claim C10, amended. When every day has a non-negative number of admissions and the
  scale is not zero, then for every batch of sampled delays and stays of the requested
  size \<open>simulate\<close> returns and raises nothing. What it returns is the occupancy array
  without its first \<open>buffer\<close> entries, and that array has the length of the buffered case
  series, counts on each of its days the admissions whose interval holds the day, and
  holds in all, for every admission, the bed-days of its interval \<open>[t+d, t+d+s+1)\<close> that
  lie before the end of the array: the bed-days at or after the end are dropped.
\<close>

theorem simulate_returns_clipped:
  assumes "truncnorm_scale m \<noteq> 0"
    and "hospitalizations_of m = Inr hs"
    and "\<forall>h \<in> set hs. 0 \<le> h"
    and "smp w (simulation_seed m) (poisson_lambda m) (truncnorm_loc m) (truncnorm_scale m)
           (sum_list hs) = Inr (delays, stays)"
    and "length delays = nat (sum_list hs)"
    and "length stays = nat (sum_list hs)"
  shows "\<exists>full. simulate smp m w = Inr (py_slice_from full (buffer m))
    \<and> length full = length (cases m)
    \<and> (\<forall>j < length (cases m). full ! j = int (beds_on delays stays (admissions hs) j))
    \<and> sum_list full
        = (\<Sum>(t, k) \<leftarrow> admissions hs.
             int (min (t + delays ! k + stays ! k + 1) (length (cases m))
                  - min (t + delays ! k) (length (cases m))))"
proof -
  let ?full = "fold (step delays stays) (admissions hs) (replicate (length (cases m)) 0)"
  have sim: "simulate smp m w = Inr (py_slice_from ?full (buffer m))"
    by (rule simulate_fold [where smp = smp and w = w, OF assms])
  have len: "length ?full = length (cases m)"
    by (simp add: length_fold_step)
  have nth: "\<forall>j < length (cases m). ?full ! j = int (beds_on delays stays (admissions hs) j)"
    by (simp add: nth_fold_step)
  have total: "sum_list ?full
      = (\<Sum>(t, k) \<leftarrow> admissions hs.
           int (min (t + delays ! k + stays ! k + 1) (length (cases m))
                - min (t + delays ! k) (length (cases m))))"
    by (simp add: sum_list_fold_step sum_list_replicate)
  from sim len nth total show ?thesis by blast
qed

text \<open>
  Witness for C10 on the later window of the example model: the admission of day 2 has
  the interval of the days 2 to 5 and one bed-day inside the array of three days.
\<close>

theorem simulate_returns_clipped_witness:
  "truncnorm_scale demo_late \<noteq> 0
   \<and> hospitalizations_of demo_late = Inr [1, 0, 1]
   \<and> smp_fixed 0 (simulation_seed demo_late) (poisson_lambda demo_late) (truncnorm_loc demo_late)
        (truncnorm_scale demo_late) (sum_list [1, 0, 1]) = Inr ([0, 0], [3, 3])
   \<and> (\<exists>full. simulate smp_fixed demo_late 0 = Inr (py_slice_from full (buffer demo_late))
         \<and> length full = 3 \<and> sum_list full = 4)
   \<and> simulate smp_fixed demo_late 0 = Inr [1, 2]"
proof -
  have h1: "truncnorm_scale demo_late \<noteq> 0" by (simp add: demo_late_def demo_def)
  have h2: "hospitalizations_of demo_late = Inr [1, 0, 1]" by code_simp
  have h3: "\<forall>h \<in> set [1, 0, 1 :: int]. 0 \<le> h" by simp
  have h4: "smp_fixed 0 (simulation_seed demo_late) (poisson_lambda demo_late)
        (truncnorm_loc demo_late) (truncnorm_scale demo_late) (sum_list [1, 0, 1])
      = Inr ([0, 0], [3, 3])"
    by code_simp
  have h5: "length [0, 0 :: nat] = nat (sum_list [1, 0, 1])" by simp
  have h6: "length [3, 3 :: nat] = nat (sum_list [1, 0, 1])" by simp
  have n: "length (cases demo_late) = 3" by (simp add: demo_late_def demo_def)
  have total: "(\<Sum>(t, k) \<leftarrow> admissions [1, 0, 1].
             int (min (t + [0, 0] ! k + [3, 3] ! k + 1) 3 - min (t + [0, 0] ! k) 3)) = 4"
    by code_simp
  from simulate_returns_clipped [where smp = smp_fixed and m = demo_late and w = 0,
      OF h1 h2 h3 h4 h5 h6]
  obtain full where
    "simulate smp_fixed demo_late 0 = Inr (py_slice_from full (buffer demo_late))"
    "length full = 3" "sum_list full = 4"
    unfolding n total by blast
  then have ex: "\<exists>full. simulate smp_fixed demo_late 0 = Inr (py_slice_from full (buffer demo_late))
         \<and> length full = 3 \<and> sum_list full = 4"
    by blast
  have sim: "simulate smp_fixed demo_late 0 = Inr [1, 2]" by code_simp
  show ?thesis by (intro conjI h1 h2 h4 ex sim)
qed

text \<open>
  Counterexample to C10 as stated: with the case series \<open>[-2, 3]\<close> the position in the
  batch goes back by two, the first draw of day 1 is read at index \<open>-2\<close> of a batch of one
  and \<open>simulate\<close> raises \<open>IndexError\<close>; with a scale of zero held as a Python number it
  raises \<open>ZeroDivisionError\<close>.
\<close>

theorem simulate_not_total_counterexample:
  "cases demo_negative = [- 2, 3]
   \<and> hospitalizations_of demo_negative = Inr [- 2, 3]
   \<and> simulate smp_fixed demo_negative 0 = Inl IndexError
   \<and> truncnorm_scale demo_zero_scale = 0
   \<and> simulate smp_fixed demo_zero_scale 0 = Inl ZeroDivisionError"
  by code_simp

section \<open>Rounding of the Monte Carlo mean\<close>

lemma around_half: "around (of_int k + 1 / 2) = (if even k then k else k + 1)"
proof -
  have fl: "\<lfloor>(of_int k :: rat) + 1 / 2\<rfloor> = k" by linarith
  show ?thesis unfolding around_def fl by simp
qed

lemma mean_around_Inr:
  assumes "mean_around sims = Inr out"
  shows "sims \<noteq> [] \<and> length out = length (hd sims)
    \<and> (\<forall>j < length out. out ! j
          = around (of_int (sum_list (map (\<lambda>r. r ! j) sims)) / of_nat (length sims)))"
  using assms by (auto simp: mean_around_def split: if_splits)

lemma monte_carlo_modes: "monte_carlo smp m n ''parallel'' = monte_carlo smp m n ''sequential''"
  by (simp add: monte_carlo_def)

lemma monte_carlo_Inr:
  assumes "monte_carlo smp m n method = Inr out"
  shows "\<exists>sims. collect (map (\<lambda>i. simulate smp m (int i)) [0..<nat n]) = Inr sims
           \<and> mean_around sims = Inr out"
  using assms by (auto simp: monte_carlo_def split: if_splits sum.splits)

text \<open>
  Claim C9. When the replicas of workers \<open>0..n-1\<close> are \<open>sims\<close> and the mean of their
  entries at position \<open>j\<close> lies exactly halfway between \<open>k\<close> and \<open>k + 1\<close> (twice the sum of
  the entries is \<open>(2k+1) * n\<close>), the entry \<open>j\<close> of the result of \<open>monte_carlo\<close> is the even
  one of \<open>k\<close> and \<open>k + 1\<close>, and the mode \<open>'parallel'\<close> returns the same series as
  \<open>'sequential'\<close>.
\<close>

theorem monte_carlo_ties_to_even:
  assumes "collect (map (\<lambda>i. simulate smp m (int i)) [0..<nat n]) = Inr sims"
    and "monte_carlo smp m n ''sequential'' = Inr out"
    and "j < length out"
    and "2 * sum_list (map (\<lambda>r. r ! j) sims) = (2 * k + 1) * n"
  shows "out ! j = (if even k then k else k + 1)
    \<and> monte_carlo smp m n ''parallel'' = Inr out"
proof -
  from monte_carlo_Inr [OF assms(2)] assms(1) have mean: "mean_around sims = Inr out" by simp
  from mean_around_Inr [OF mean] assms(3)
  have ne: "sims \<noteq> []"
    and val: "out ! j = around (of_int (sum_list (map (\<lambda>r. r ! j) sims)) / of_nat (length sims))"
    by simp_all
  have "length sims = nat n"
  proof -
    have "length (map (\<lambda>i. simulate smp m (int i)) [0..<nat n]) = length (map Inr sims :: (py_error + int list) list)"
      by (simp only: collect_map_Inr [OF assms(1)])
    then show ?thesis by simp
  qed
  moreover from ne have "0 < length sims" by simp
  ultimately have npos: "0 < n" and len: "int (length sims) = n" by linarith+
  have lenq: "(of_nat (length sims) :: rat) = of_int n"
    by (simp add: len [symmetric])
  have "(of_int (2 * sum_list (map (\<lambda>r. r ! j) sims)) :: rat) = of_int ((2 * k + 1) * n)"
    by (simp only: assms(4))
  then have "(2 :: rat) * of_int (sum_list (map (\<lambda>r. r ! j) sims)) = (2 * of_int k + 1) * of_int n"
    by simp
  then have "(of_int (sum_list (map (\<lambda>r. r ! j) sims)) :: rat) / of_int n = of_int k + 1 / 2"
    using npos by (simp add: field_simps)
  then show ?thesis
    using val assms(2) by (simp add: lenq around_half monte_carlo_modes)
qed

text \<open>
  Witness for C9: two replicas with the entries 0 and 1 at position 1, mean one half,
  rounded to 0.
\<close>

theorem monte_carlo_ties_to_even_witness:
  "collect (map (\<lambda>i. simulate smp_by_worker demo (int i)) [0..<nat 2]) = Inr [[1, 0], [3, 1]]
   \<and> monte_carlo smp_by_worker demo 2 ''sequential'' = Inr [2, 0]
   \<and> [2, 0 :: int] ! 1 = 0
   \<and> monte_carlo smp_by_worker demo 2 ''parallel'' = Inr [2, 0]"
proof -
  have h1: "collect (map (\<lambda>i. simulate smp_by_worker demo (int i)) [0..<nat 2])
      = Inr [[1, 0], [3, 1]]"
    by code_simp
  have h2: "monte_carlo smp_by_worker demo 2 ''sequential'' = Inr [2, 0]"
    by code_simp
  have h3: "1 < length [2, 0 :: int]" by simp
  have h4: "2 * sum_list (map (\<lambda>r. r ! 1) [[1, 0], [3, 1 :: int]]) = (2 * 0 + 1) * 2"
    by simp
  show ?thesis
    using monte_carlo_ties_to_even [OF h1 h2 h3 h4] h1 h2 by simp
qed

section \<open>The calibration objective\<close>

lemma foldl_np_add_Fin: "foldl np_add (Fin a) (map Fin qs) = Fin (a + sum_list qs)"
  by (induction qs arbitrary: a) (simp_all add: add.assoc)

lemma np_add_not_NInf: "a \<noteq> NInf \<Longrightarrow> b \<noteq> NInf \<Longrightarrow> np_add a b \<noteq> NInf"
  by (cases a; cases b) simp_all

lemma np_add_nonfinite_left:
  "a = PInf \<or> a = NaN \<Longrightarrow> b \<noteq> NInf \<Longrightarrow> np_add a b = PInf \<or> np_add a b = NaN"
  by (cases a; cases b) simp_all

lemma np_add_nonfinite_right:
  "a \<noteq> NInf \<Longrightarrow> b = PInf \<or> b = NaN \<Longrightarrow> np_add a b = PInf \<or> np_add a b = NaN"
  by (cases a; cases b) simp_all

lemma foldl_np_add_stays_nonfinite:
  "acc = PInf \<or> acc = NaN \<Longrightarrow> NInf \<notin> set xs
   \<Longrightarrow> foldl np_add acc xs = PInf \<or> foldl np_add acc xs = NaN"
proof (induction xs arbitrary: acc)
  case Nil
  then show ?case by simp
next
  case (Cons x xs)
  from Cons.prems have "np_add acc x = PInf \<or> np_add acc x = NaN"
    by (intro np_add_nonfinite_left) auto
  then show ?case using Cons.IH Cons.prems(2) by simp
qed

lemma foldl_np_add_nonfinite:
  "acc \<noteq> NInf \<Longrightarrow> NInf \<notin> set xs \<Longrightarrow> PInf \<in> set xs \<or> NaN \<in> set xs
   \<Longrightarrow> foldl np_add acc xs = PInf \<or> foldl np_add acc xs = NaN"
proof (induction xs arbitrary: acc)
  case Nil
  then show ?case by simp
next
  case (Cons x xs)
  have x: "x \<noteq> NInf" and xs: "NInf \<notin> set xs" using Cons.prems(2) by auto
  show ?case
  proof (cases "x = PInf \<or> x = NaN")
    case True
    then have "np_add acc x = PInf \<or> np_add acc x = NaN"
      using Cons.prems(1) by (intro np_add_nonfinite_right)
    then show ?thesis using foldl_np_add_stays_nonfinite [OF _ xs] by simp
  next
    case False
    then have "PInf \<in> set xs \<or> NaN \<in> set xs" using Cons.prems(3) by auto
    moreover have "np_add acc x \<noteq> NInf" using Cons.prems(1) x by (rule np_add_not_NInf)
    ultimately show ?thesis using Cons.IH xs by simp
  qed
qed

lemma true_divide_abs_not_NInf: "true_divide \<bar>x\<bar> a \<noteq> NInf"
  by (simp add: true_divide_def)

lemma true_divide_abs_zero: "true_divide \<bar>x\<bar> 0 = PInf \<or> true_divide \<bar>x\<bar> 0 = NaN"
  by (simp add: true_divide_def)

lemma mape_nonzero:
  assumes "length pred = length actual" and "actual \<noteq> []" and "0 \<notin> set actual"
  shows "mape actual pred
     = Inr (Fin (sum_list (map (\<lambda>(a, p). of_int \<bar>a - p\<bar> / of_int a) (zip actual pred))
                  / of_nat (length actual) * 100))"
proof -
  let ?pairs = "zip actual pred"
  have terms: "map (\<lambda>(a, p). true_divide \<bar>a - p\<bar> a) ?pairs
      = map Fin (map (\<lambda>(a, p). of_int \<bar>a - p\<bar> / of_int a) ?pairs)"
    using assms(3) by (auto simp: true_divide_def dest: set_zip_leftD)
  have ne: "?pairs \<noteq> []" using assms(1,2) by (cases actual; cases pred) auto
  have len: "length ?pairs = length actual" using assms(1) by simp
  show ?thesis
    using assms(1) ne len
    by (simp add: mape_def broadcast2_def np_mean_def times100_def terms foldl_np_add_Fin
        del: map_map)
qed

lemma mape_zero:
  assumes "length pred = length actual" and "0 \<in> set actual"
  shows "mape actual pred = Inr PInf \<or> mape actual pred = Inr NaN"
proof -
  let ?terms = "map (\<lambda>(a, p). true_divide \<bar>a - p\<bar> a) (zip actual pred)"
  from assms(2) obtain i where i: "i < length actual" "actual ! i = 0"
    by (auto simp: in_set_conv_nth)
  then have "?terms ! i = true_divide \<bar>0 - pred ! i\<bar> 0" and ilen: "i < length ?terms"
    using assms(1) by simp_all
  then have nf: "?terms ! i = PInf \<or> ?terms ! i = NaN"
    by (simp add: true_divide_def)
  from ilen have mem: "?terms ! i \<in> set ?terms" by (rule nth_mem)
  from nf have some: "PInf \<in> set ?terms \<or> NaN \<in> set ?terms"
  proof
    assume e: "?terms ! i = PInf"
    show ?thesis using mem unfolding e by (rule disjI1)
  next
    assume e: "?terms ! i = NaN"
    show ?thesis using mem unfolding e by (rule disjI2)
  qed
  have none: "NInf \<notin> set ?terms"
    by (auto simp: true_divide_def split: if_splits)
  have ne: "?terms \<noteq> []" using ilen by auto
  have "foldl np_add (Fin 0) ?terms = PInf \<or> foldl np_add (Fin 0) ?terms = NaN"
    using none some by (intro foldl_np_add_nonfinite) simp_all
  then have "np_mean ?terms = PInf \<or> np_mean ?terms = NaN"
    using ne by (auto simp: np_mean_def)
  then have "times100 (np_mean ?terms) = PInf \<or> times100 (np_mean ?terms) = NaN"
    by (auto simp: times100_def)
  then show ?thesis using assms(1) by (simp add: mape_def broadcast2_def)
qed

lemma set_params_occupancy: "set_params m ps = Inr m1 \<Longrightarrow> occupancy m1 = occupancy m"
  by (auto simp: set_params_def split: if_splits)

text \<open>
  Claim C4, amended. When the aggregated simulation is as long as the reference
  occupancy series, and that series is not empty, the objective is the mean over the
  days of \<open>|actual - predicted| / actual\<close>, times 100, provided no reference entry is zero.
  When a reference entry is zero no policy applies: the division gives infinity (or NaN)
  and the objective returned is infinity or NaN.
\<close>

theorem get_mape_objective:
  assumes "set_params m ps = Inr m1"
    and "monte_carlo smp m1 n method = Inr sim"
    and "length sim = length (occupancy m)"
    and "occupancy m \<noteq> []"
  shows "(0 \<notin> set (occupancy m) \<longrightarrow>
           get_mape smp m ps n method
             = Inr (Fin (sum_list (map (\<lambda>(a, p). of_int \<bar>a - p\<bar> / of_int a) (zip (occupancy m) sim))
                          / of_nat (length (occupancy m)) * 100), m1))
    \<and> (0 \<in> set (occupancy m) \<longrightarrow>
           get_mape smp m ps n method = Inr (PInf, m1)
           \<or> get_mape smp m ps n method = Inr (NaN, m1))"
proof -
  have occ: "occupancy m1 = occupancy m" by (rule set_params_occupancy [OF assms(1)])
  have obj: "get_mape smp m ps n method
      = (case mape (occupancy m) sim of Inl e \<Rightarrow> Inl e | Inr v \<Rightarrow> Inr (v, m1))"
    using assms(1,2) by (simp add: get_mape_def occ)
  show ?thesis
  proof (intro conjI impI)
    assume "0 \<notin> set (occupancy m)"
    then show "get_mape smp m ps n method
        = Inr (Fin (sum_list (map (\<lambda>(a, p). of_int \<bar>a - p\<bar> / of_int a) (zip (occupancy m) sim))
                     / of_nat (length (occupancy m)) * 100), m1)"
      using mape_nonzero [OF assms(3,4)] obj by simp
  next
    assume "0 \<in> set (occupancy m)"
    then show "get_mape smp m ps n method = Inr (PInf, m1)
        \<or> get_mape smp m ps n method = Inr (NaN, m1)"
      using mape_zero [OF assms(3)] obj by auto
  qed
qed

text \<open>
  Witness for C4: the objective is 25 on the first window of the example model, and not
  finite on the later window, whose reference series ends with a zero.
\<close>

theorem get_mape_objective_witness:
  "set_params demo [1, 0, 3, 1] = Inr demo
   \<and> monte_carlo smp_fixed demo 1 ''sequential'' = Inr [3, 3]
   \<and> occupancy demo = [3, 6]
   \<and> get_mape smp_fixed demo [1, 0, 3, 1] 1 ''sequential'' = Inr (Fin 25, demo)
   \<and> set_params demo_late [1, 0, 3, 1] = Inr demo_late
   \<and> monte_carlo smp_fixed demo_late 1 ''sequential'' = Inr [1, 2]
   \<and> occupancy demo_late = [6, 0]
   \<and> (get_mape smp_fixed demo_late [1, 0, 3, 1] 1 ''sequential'' = Inr (PInf, demo_late)
        \<or> get_mape smp_fixed demo_late [1, 0, 3, 1] 1 ''sequential'' = Inr (NaN, demo_late))"
proof -
  have a1: "set_params demo [1, 0, 3, 1] = Inr demo" by (simp add: set_params_def demo_def)
  have a2: "monte_carlo smp_fixed demo 1 ''sequential'' = Inr [3, 3]" by code_simp
  have a3: "occupancy demo = [3, 6]" by (simp add: demo_def)
  have a4: "length [3, 3 :: int] = length (occupancy demo)" by (simp add: a3)
  have a5: "occupancy demo \<noteq> []" by (simp add: a3)
  have b1: "set_params demo_late [1, 0, 3, 1] = Inr demo_late"
    by (simp add: set_params_def demo_late_def demo_def)
  have b2: "monte_carlo smp_fixed demo_late 1 ''sequential'' = Inr [1, 2]" by code_simp
  have b3: "occupancy demo_late = [6, 0]" by (simp add: demo_late_def)
  have b4: "length [1, 2 :: int] = length (occupancy demo_late)" by (simp add: b3)
  have b5: "occupancy demo_late \<noteq> []" by (simp add: b3)
  have first: "get_mape smp_fixed demo [1, 0, 3, 1] 1 ''sequential'' = Inr (Fin 25, demo)"
    using get_mape_objective [OF a1 a2 a4 a5] by (simp add: a3)
  have second: "get_mape smp_fixed demo_late [1, 0, 3, 1] 1 ''sequential'' = Inr (PInf, demo_late)
        \<or> get_mape smp_fixed demo_late [1, 0, 3, 1] 1 ''sequential'' = Inr (NaN, demo_late)"
    using get_mape_objective [OF b1 b2 b4 b5] by (simp add: b3)
  show ?thesis by (intro conjI a1 a2 a3 first b1 b2 b3 second)
qed

text \<open>
  Counterexample to C4 as stated: with the reference series \<open>[6, 0]\<close> the objective
  evaluates to infinity, the value of the division by zero.
\<close>

theorem get_mape_zero_reference_counterexample:
  "occupancy demo_late = [6, 0]
   \<and> map_sum id fst (get_mape smp_fixed demo_late [1, 0, 3, 1] 1 ''sequential'') = Inr PInf"
  by code_simp

section \<open>The forecast\<close>

lemma stay_loop_length:
  "stay_loop t delays stays pos is occ = Inr occ' \<Longrightarrow> length occ' = length occ"
proof (induction "is" arbitrary: occ)
  case Nil
  then show ?case by simp
next
  case (Cons i rest)
  then show ?case
    by (auto simp: Let_def length_slice_incr split: sum.splits)
qed

lemma day_loop_length:
  "day_loop delays stays ths pos occ = Inr occ' \<Longrightarrow> length occ' = length occ"
proof (induction ths arbitrary: pos occ)
  case Nil
  then show ?case by simp
next
  case (Cons th rest)
  obtain t h where th: "th = (t, h)" by (cases th)
  from Cons.prems obtain occ1 where
    inner: "stay_loop t delays stays pos [0..<nat h] occ = Inr occ1" and
    outer: "day_loop delays stays rest (pos + h) occ1 = Inr occ'"
    unfolding th by (auto split: sum.splits)
  from Cons.IH [OF outer] stay_loop_length [OF inner] show ?case by simp
qed

lemma simulate_length:
  assumes "simulate smp m w = Inr occ"
  shows "length occ = length (py_slice_from (cases m) (buffer m))"
proof -
  from assms obtain delays stays hs full where
    loop: "day_loop delays stays (zip [0..<length (cases m)] hs) 0
             (replicate (length (cases m)) 0) = Inr full" and
    occ: "occ = py_slice_from full (buffer m)"
    by (auto simp: simulate_def Let_def split: if_splits sum.splits prod.splits)
  have "length full = length (cases m)"
    using day_loop_length [OF loop] by simp
  then show ?thesis unfolding occ by (rule length_py_slice_from)
qed

lemma monte_carlo_length:
  assumes "monte_carlo smp m n method = Inr out"
  shows "length out = length (py_slice_from (cases m) (buffer m))"
proof -
  from monte_carlo_Inr [OF assms] obtain sims where
    coll: "collect (map (\<lambda>i. simulate smp m (int i)) [0..<nat n]) = Inr sims" and
    mean: "mean_around sims = Inr out"
    by blast
  from mean_around_Inr [OF mean] have ne: "sims \<noteq> []" and len: "length out = length (hd sims)"
    by simp_all
  have eq: "map (\<lambda>i. simulate smp m (int i)) [0..<nat n] = map Inr sims"
    by (rule collect_map_Inr [OF coll])
  from ne obtain r rest where sims: "sims = r # rest" by (cases sims) auto
  from eq sims have "0 < nat n" by (cases "nat n") auto
  then have "[0..<nat n] = 0 # [1..<nat n]" by (simp add: upt_conv_Cons)
  with eq sims have "simulate smp m 0 = Inr r" by simp
  from simulate_length [OF this] len sims show ?thesis by simp
qed

lemma length_py_slice_last:
  "1 \<le> days \<Longrightarrow> length (py_slice_from xs (- days)) = min (nat days) (length xs)"
  by (auto simp: py_slice_from_def)

lemma update_to_date:
  assumes "update m None None None None (Some t) None = Inr m1"
  shows "\<exists>occ cs.
      occupancy_get_array (occupancy_data m) (from_date m) t (state m) (bed_type m) = Inr occ
    \<and> case_get_array (case_data m) (from_date m) t (state m) (age_groups m) (buffer m) = Inr cs
    \<and> m1 = m\<lparr>to_date := t, occupancy := occ, cases := cs\<rparr>"
  using assms by (auto simp: update_def Let_def split: sum.splits)

lemma update_in_sync:
  assumes "update m None None None None None None = Inr m"
  shows "occupancy_get_array (occupancy_data m) (from_date m) (to_date m) (state m) (bed_type m)
           = Inr (occupancy m)
    \<and> case_get_array (case_data m) (from_date m) (to_date m) (state m) (age_groups m) (buffer m)
           = Inr (cases m)"
proof -
  from assms obtain occ cs where
    o: "occupancy_get_array (occupancy_data m) (from_date m) (to_date m) (state m) (bed_type m)
          = Inr occ" and
    c: "case_get_array (case_data m) (from_date m) (to_date m) (state m) (age_groups m) (buffer m)
          = Inr cs" and
    m: "m\<lparr>occupancy := occ, cases := cs\<rparr> = m"
    by (auto simp: update_def Let_def split: sum.splits)
  from m have "occupancy (m\<lparr>occupancy := occ, cases := cs\<rparr>) = occupancy m"
    and "cases (m\<lparr>occupancy := occ, cases := cs\<rparr>) = cases m" by simp_all
  then have "occ = occupancy m" and "cs = cases m" by simp_all
  with o c show ?thesis by simp
qed

lemma predict_steps:
  assumes "predict smp m days n method = Inr (out, m')"
  shows "\<exists>m1 simulation.
      update m None None None None (Some (to_date m + days)) None = Inr m1
    \<and> monte_carlo smp m1 n method = Inr simulation
    \<and> update m1 None None None None (Some (to_date m)) None = Inr m'
    \<and> out = py_slice_from simulation (- days)"
  using assms by (auto simp: predict_def Let_def split: sum.splits)

text \<open>
  Claim C5, amended. Whenever \<open>predict(days, n, mode)\<close> returns and \<open>days\<close> is at least 1,
  the series it returns has as many entries as the smaller of \<open>days\<close> and the length of
  the series simulated over the extended window (the case series of that window without
  its buffer): exactly \<open>days\<close> entries whenever the horizon is not longer than the
  simulated window, whatever \<open>n\<close> and the mode.
\<close>

theorem predict_length:
  assumes "predict smp m days n method = Inr (out, m')" and "1 \<le> days"
  shows "\<exists>m1. update m None None None None (Some (to_date m + days)) None = Inr m1
    \<and> length out = min (nat days) (length (py_slice_from (cases m1) (buffer m1)))"
proof -
  from predict_steps [OF assms(1)] obtain m1 simulation where
    up: "update m None None None None (Some (to_date m + days)) None = Inr m1" and
    mc: "monte_carlo smp m1 n method = Inr simulation" and
    out: "out = py_slice_from simulation (- days)"
    by blast
  have "length out = min (nat days) (length simulation)"
    unfolding out by (rule length_py_slice_last [OF assms(2)])
  then show ?thesis using up monte_carlo_length [OF mc] by simp
qed

text \<open>Witness for C5: a one-day forecast on the example model returns one entry.\<close>

theorem predict_length_witness:
  "predict smp_fixed demo 1 1 ''parallel'' = Inr ([4], demo)
   \<and> update demo None None None None (Some (to_date demo + 1)) None
      = Inr (demo\<lparr>to_date := 4, occupancy := [3, 6, 0], cases := [2, 1, 0, 1]\<rparr>)
   \<and> length [4 :: int] = min (nat 1) (length (py_slice_from [2, 1, 0, 1 :: int] (buffer demo)))"
proof -
  have h1: "predict smp_fixed demo 1 1 ''parallel'' = Inr ([4], demo)" by code_simp
  have h2: "(1::int) \<le> 1" by simp
  have h3: "update demo None None None None (Some (to_date demo + 1)) None
      = Inr (demo\<lparr>to_date := 4, occupancy := [3, 6, 0], cases := [2, 1, 0, 1]\<rparr>)"
    by code_simp
  from predict_length [OF h1 h2] h3
  have "length [4 :: int] = min (nat 1) (length (py_slice_from [2, 1, 0, 1 :: int] (buffer demo)))"
    by auto
  then show ?thesis using h1 h3 by (intro conjI)
qed

text \<open>
  Counterexample to C5 as stated: \<open>days = 0\<close> returns the whole simulated series (two
  entries), and \<open>days = 5\<close>, which reaches past the available case data, returns four.
\<close>

theorem predict_length_counterexample:
  "map_sum id (length \<circ> fst) (predict smp_fixed demo 0 1 ''parallel'') = Inr 2
   \<and> map_sum id (length \<circ> fst) (predict smp_fixed demo 5 1 ''parallel'') = Inr 4"
  by code_simp

section \<open>Calibration and the model state\<close>

lemma take4: "4 \<le> length xs \<Longrightarrow> take 4 xs = [xs ! 0, xs ! 1, xs ! 2, xs ! 3]"
proof -
  assume len: "4 \<le> length xs"
  then obtain a r1 where x1: "xs = a # r1" by (cases xs) auto
  with len obtain b r2 where x2: "r1 = b # r2" by (cases r1) auto
  with len x1 obtain c r3 where x3: "r2 = c # r3" by (cases r2) auto
  with len x1 x2 obtain d r4 where x4: "r3 = d # r4" by (cases r3) auto
  show ?thesis unfolding x1 x2 x3 x4 by (simp add: numeral_eq_Suc)
qed

lemma get_mape_ignores_live_params:
  "map_sum id fst
     (get_mape smp (m\<lparr>hospitalization_p := a, poisson_lambda := b, truncnorm_loc := c,
                        truncnorm_scale := d, python_floats := f\<rparr>) ps n method)
     = map_sum id fst (get_mape smp m ps n method)"
  by (simp add: get_mape_def set_params_def)

lemma calibrate_steps:
  assumes "calibrate smp de m n bounds maxiter use_x0 = Inr (r, m')"
  shows "de (\<lambda>ps. map_sum id fst (get_mape smp m ps n ''sequential'')) bounds maxiter
            (if use_x0 then Some (params m) else None) (calibration_seed m) = Inr r
    \<and> set_params m (opt_x r) = Inr m'"
  using assms by (auto simp: calibrate_def Let_def split: sum.splits)

lemma set_params_Inr:
  assumes "set_params m v = Inr m'"
  shows "4 \<le> length v
    \<and> m' = m\<lparr>hospitalization_p := v ! 0, poisson_lambda := v ! 1,
                 truncnorm_loc := v ! 2, truncnorm_scale := v ! 3, python_floats := False\<rparr>"
  using assms by (auto simp: set_params_def split: if_splits)

text \<open>
  Claim C3. With an optimizer that returns only vectors within the bounds it is given,
  every completed call to \<open>calibrate\<close> returns a best parameter vector of which every
  component lies within its supplied lower and upper bound, inclusive; its first four
  components are the live parameters after the call. \<open>calibrate\<close> hands the bounds to
  the optimizer as supplied and returns the optimizer's result as it is.
\<close>

theorem calibrate_within_bounds:
  assumes "respects_bounds de"
    and "calibrate smp de m n bounds maxiter use_x0 = Inr (r, m')"
  shows "in_bounds bounds (opt_x r) \<and> params m' = take 4 (opt_x r)"
proof -
  from calibrate_steps [OF assms(2)] have
    opt: "de (\<lambda>ps. map_sum id fst (get_mape smp m ps n ''sequential'')) bounds maxiter
            (if use_x0 then Some (params m) else None) (calibration_seed m) = Inr r" and
    store: "set_params m (opt_x r) = Inr m'"
    by simp_all
  from assms(1) opt have inb: "in_bounds bounds (opt_x r)"
    unfolding respects_bounds_def by blast
  from set_params_Inr [OF store] have "params m' = take 4 (opt_x r)"
    by (simp add: params_def take4)
  with inb show ?thesis by simp
qed

lemma corner_in_bounds:
  "\<not> list_ex (\<lambda>(lo, hi). hi < lo) bounds \<Longrightarrow> in_bounds bounds (map fst bounds)"
  unfolding in_bounds_def by (induction bounds) auto

lemma corner_optimizer_respects_bounds: "respects_bounds corner_optimizer"
  unfolding respects_bounds_def corner_optimizer_def
  by (auto simp: corner_in_bounds split: if_splits sum.splits)

text \<open>Witness for C3: calibration of the example model with the corner optimizer.\<close>

theorem calibrate_within_bounds_witness:
  "respects_bounds corner_optimizer
   \<and> calibrate smp_fixed corner_optimizer demo 1 [(1 / 2, 1), (0, 1), (3, 4), (1, 2)] 5 False
       = Inr (\<lparr>opt_x = [1 / 2, 0, 3, 1], opt_fun = Fin 75\<rparr>, demo\<lparr>hospitalization_p := 1 / 2\<rparr>)
   \<and> in_bounds [(1 / 2, 1), (0, 1), (3, 4), (1, 2)] [1 / 2, 0, 3, 1]
   \<and> params (demo\<lparr>hospitalization_p := 1 / 2\<rparr>) = [1 / 2, 0, 3, 1]"
proof -
  have h1: "respects_bounds corner_optimizer" by (rule corner_optimizer_respects_bounds)
  have h2: "calibrate smp_fixed corner_optimizer demo 1 [(1 / 2, 1), (0, 1), (3, 4), (1, 2)] 5 False
       = Inr (\<lparr>opt_x = [1 / 2, 0, 3, 1], opt_fun = Fin 75\<rparr>, demo\<lparr>hospitalization_p := 1 / 2\<rparr>)"
    by code_simp
  from calibrate_within_bounds [OF h1 h2]
  have "in_bounds [(1 / 2, 1), (0, 1), (3, 4), (1, 2)] [1 / 2, 0, 3, 1]"
    and "params (demo\<lparr>hospitalization_p := 1 / 2\<rparr>) = [1 / 2, 0, 3, 1]"
    by simp_all
  with h1 h2 show ?thesis by (intro conjI)
qed

lemma update_frame:
  assumes "update m st bt ag fd td bf = Inr m'"
  shows "m'\<lparr>state := state m, bed_type := bed_type m, age_groups := age_groups m,
            from_date := from_date m, to_date := to_date m, buffer := buffer m,
            occupancy := occupancy m, cases := cases m\<rparr> = m"
  using assms
  by (cases st; cases bt; cases ag; cases fd; cases td; cases bf)
     (auto simp: update_def Let_def split: sum.splits)

text \<open>
  Claim C6, amended. The live parameter vector is not the only state that is written:
  \<open>update\<close> writes the window state (the window fields and the two cached arrays) and
  nothing else. A call to \<open>calibrate\<close> that returns has run the optimizer on the model as
  it was at the start of the call (the objective bound to that model, the start vector,
  when asked for, its live parameters) and has written the live parameters, with the best
  vector found, and nothing else: the write at its end is its only one. And \<open>predict\<close>,
  called on a model whose cached arrays are those of its window, returns with the model
  state equal to the state before the call, the window it moved in between restored.
\<close>

theorem state_frame:
  "(calibrate smp de m n bounds maxiter use_x0 = Inr (r, m2) \<longrightarrow>
      de (\<lambda>ps. map_sum id fst (get_mape smp m ps n ''sequential'')) bounds maxiter
         (if use_x0 then Some (params m) else None) (calibration_seed m) = Inr r
      \<and> m2 = m\<lparr>hospitalization_p := opt_x r ! 0, poisson_lambda := opt_x r ! 1,
                 truncnorm_loc := opt_x r ! 2, truncnorm_scale := opt_x r ! 3,
                 python_floats := False\<rparr>)
   \<and> (update m st bt ag fd td bf = Inr m4 \<longrightarrow>
      m4\<lparr>state := state m, bed_type := bed_type m, age_groups := age_groups m,
          from_date := from_date m, to_date := to_date m, buffer := buffer m,
          occupancy := occupancy m, cases := cases m\<rparr> = m)
   \<and> (update m None None None None None None = Inr m \<longrightarrow>
      predict smp m days k method' = Inr (out, m3) \<longrightarrow> m3 = m)"
proof (intro conjI impI)
  assume cal: "calibrate smp de m n bounds maxiter use_x0 = Inr (r, m2)"
  from calibrate_steps [OF cal]
  show "de (\<lambda>ps. map_sum id fst (get_mape smp m ps n ''sequential'')) bounds maxiter
         (if use_x0 then Some (params m) else None) (calibration_seed m) = Inr r"
    by (rule conjunct1)
  from calibrate_steps [OF cal] have "set_params m (opt_x r) = Inr m2" by (rule conjunct2)
  from set_params_Inr [OF this]
  show "m2 = m\<lparr>hospitalization_p := opt_x r ! 0, poisson_lambda := opt_x r ! 1,
                 truncnorm_loc := opt_x r ! 2, truncnorm_scale := opt_x r ! 3,
                 python_floats := False\<rparr>"
    by (rule conjunct2)
next
  assume "update m st bt ag fd td bf = Inr m4"
  then show "m4\<lparr>state := state m, bed_type := bed_type m, age_groups := age_groups m,
          from_date := from_date m, to_date := to_date m, buffer := buffer m,
          occupancy := occupancy m, cases := cases m\<rparr> = m"
    by (rule update_frame)
next
  assume sync: "update m None None None None None None = Inr m"
    and pred: "predict smp m days k method' = Inr (out, m3)"
  from predict_steps [OF pred] obtain m1 where
    up1: "update m None None None None (Some (to_date m + days)) None = Inr m1" and
    up2: "update m1 None None None None (Some (to_date m)) None = Inr m3"
    by blast
  from update_to_date [OF up1] obtain occ1 cs1 where
    m1: "m1 = m\<lparr>to_date := to_date m + days, occupancy := occ1, cases := cs1\<rparr>"
    by blast
  from update_to_date [OF up2] obtain occ2 cs2 where
    o2: "occupancy_get_array (occupancy_data m1) (from_date m1) (to_date m) (state m1) (bed_type m1)
           = Inr occ2" and
    c2: "case_get_array (case_data m1) (from_date m1) (to_date m) (state m1) (age_groups m1)
           (buffer m1) = Inr cs2" and
    m3: "m3 = m1\<lparr>to_date := to_date m, occupancy := occ2, cases := cs2\<rparr>"
    by blast
  from update_in_sync [OF sync] o2 c2 have "occ2 = occupancy m" and "cs2 = cases m"
    unfolding m1 by simp_all
  then show "m3 = m" unfolding m3 m1 by simp
qed

text \<open>
  Witness for C6 on the example model: a calibration, a move of the window end to day 4,
  and a one-day forecast.
\<close>

theorem state_frame_witness:
  "calibrate smp_fixed corner_optimizer demo 1 [(1 / 2, 1), (0, 1), (3, 4), (1, 2)] 5 False
       = Inr (\<lparr>opt_x = [1 / 2, 0, 3, 1], opt_fun = Fin 75\<rparr>, demo\<lparr>hospitalization_p := 1 / 2\<rparr>)
   \<and> demo\<lparr>hospitalization_p := 1 / 2\<rparr>
      = demo\<lparr>hospitalization_p := [1 / 2, 0, 3, 1] ! 0, poisson_lambda := [1 / 2, 0, 3, 1] ! 1,
               truncnorm_loc := [1 / 2, 0, 3, 1] ! 2, truncnorm_scale := [1 / 2, 0, 3, 1] ! 3,
               python_floats := False\<rparr>
   \<and> update demo None None None None (Some 4) None
       = Inr (demo\<lparr>to_date := 4, occupancy := [3, 6, 0], cases := [2, 1, 0, 1]\<rparr>)
   \<and> update demo None None None None None None = Inr demo
   \<and> predict smp_fixed demo 1 1 ''sequential'' = Inr ([4], demo)"
proof -
  have c: "calibrate smp_fixed corner_optimizer demo 1 [(1 / 2, 1), (0, 1), (3, 4), (1, 2)] 5 False
       = Inr (\<lparr>opt_x = [1 / 2, 0, 3, 1], opt_fun = Fin 75\<rparr>, demo\<lparr>hospitalization_p := 1 / 2\<rparr>)"
    by code_simp
  have u: "update demo None None None None (Some 4) None
       = Inr (demo\<lparr>to_date := 4, occupancy := [3, 6, 0], cases := [2, 1, 0, 1]\<rparr>)"
    by code_simp
  have s: "update demo None None None None None None = Inr demo" by code_simp
  have p: "predict smp_fixed demo 1 1 ''sequential'' = Inr ([4], demo)" by code_simp
  let ?r = "\<lparr>opt_x = [1 / 2, 0, 3, 1], opt_fun = Fin 75\<rparr>"
  have "demo\<lparr>hospitalization_p := 1 / 2\<rparr>
      = demo\<lparr>hospitalization_p := opt_x ?r ! 0, poisson_lambda := opt_x ?r ! 1,
               truncnorm_loc := opt_x ?r ! 2, truncnorm_scale := opt_x ?r ! 3,
               python_floats := False\<rparr>"
    using state_frame [where smp = smp_fixed and de = corner_optimizer and m = demo and n = 1
        and bounds = "[(1 / 2, 1), (0, 1), (3, 4), (1, 2)]" and maxiter = 5 and ?use_x0.0 = False
        and r = ?r and ?m2.0 = "demo\<lparr>hospitalization_p := 1 / 2\<rparr>"] c
    by blast
  then have e: "demo\<lparr>hospitalization_p := 1 / 2\<rparr>
      = demo\<lparr>hospitalization_p := [1 / 2, 0, 3, 1] ! 0, poisson_lambda := [1 / 2, 0, 3, 1] ! 1,
               truncnorm_loc := [1 / 2, 0, 3, 1] ! 2, truncnorm_scale := [1 / 2, 0, 3, 1] ! 3,
               python_floats := False\<rparr>"
    by (simp only: opt_result.simps)
  show ?thesis by (intro conjI c e u s p)
qed

text \<open>
  Counterexample to C6 as stated: \<open>update\<close> moves the end of the window from day 3 to
  day 4 and replaces the cached case series, while the parameter vector stays as it is:
  the parameter vector is not the only state that is written.
\<close>

theorem state_frame_counterexample:
  "to_date demo = 3
   \<and> cases demo = [2, 1, 0]
   \<and> map_sum id (\<lambda>m. (to_date m, cases m, params m))
        (update demo None None None None (Some 4) None)
       = Inr (4, [2, 1, 0, 1], params demo)"
  by code_simp

section \<open>Windows and configurations the providers do not check\<close>

lemma length_diff_from: "length (diff_from p vs) = length vs"
  by (induction vs arbitrary: p) simp_all

lemma diff_from_no_None: "None \<notin> set (diff_from p vs)"
  by (induction vs arbitrary: p) simp_all

lemma astype_int_all_Some:
  "None \<notin> snd ` set xs \<Longrightarrow> \<exists>out. astype_int xs = Inr out \<and> map fst out = map fst xs"
proof (induction xs rule: astype_int.induct)
  case 1
  then show ?case by simp
next
  case (2 d rest)
  then show ?case by force
next
  case (3 d v rest)
  then show ?case by auto
qed

lemma map_fst_filter_zip:
  "length ds = length vs \<Longrightarrow> map fst (filter (\<lambda>(d, v). P d) (zip ds vs)) = filter P ds"
proof (induction ds arbitrary: vs)
  case Nil
  then show ?case by simp
next
  case (Cons d ds)
  then obtain v vs' where "vs = v # vs'" by (cases vs) auto
  with Cons show ?case by simp
qed

lemma dates_groupby_sum: "map fst (groupby_sum rows) = sort (remdups (map Time rows))"
  by (simp add: groupby_sum_def o_def)

lemma case_get_df_window:
  fixes cdata :: "case_row list" and st :: string and ages :: "string list"
  defines "rows \<equiv> filter (\<lambda>r. Altersgruppe r \<in> set ages) (filter (\<lambda>r. case_Bundesland r = st) cdata)"
  defines "dates \<equiv> sort (remdups (map Time rows))"
  shows "if dates \<noteq> [] \<and> from_d - buf \<le> hd dates \<and> hd dates \<le> to_d
         then case_get_df cdata from_d to_d st ages buf = Inl IntCastingNaNError
         else \<exists>df. case_get_df cdata from_d to_d st ages buf = Inr df
                \<and> map fst df = filter (\<lambda>d. from_d - buf \<le> d \<and> d \<le> to_d) dates"
proof -
  let ?W = "\<lambda>d. from_d - buf \<le> d \<and> d \<le> to_d"
  let ?g = "groupby_sum rows"
  have df: "case_get_df cdata from_d to_d st ages buf
      = astype_int (filter (\<lambda>(d, v). ?W d) (zip (map fst ?g) (diff (map snd ?g))))"
    by (simp add: case_get_df_def Let_def rows_def)
  have dates: "map fst ?g = dates" by (simp add: dates_groupby_sum dates_def)
  show ?thesis
  proof (cases ?g)
    case Nil
    then have "dates = []" using dates by simp
    then show ?thesis using Nil df by (simp add: diff_def)
  next
    case (Cons g0 rest)
    obtain d0 s0 where g0: "g0 = (d0, s0)" by (cases g0)
    have ds: "dates = d0 # map fst rest" using dates Cons g0 by simp
    let ?tail = "zip (map fst rest) (diff_from s0 (map snd rest))"
    have zipped: "zip (map fst ?g) (diff (map snd ?g)) = (d0, None) # ?tail"
      using Cons g0 by (simp add: diff_def)
    show ?thesis
    proof (cases "?W d0")
      case True
      then have "case_get_df cdata from_d to_d st ages buf = Inl IntCastingNaNError"
        unfolding df zipped by simp
      then show ?thesis using True ds by simp
    next
      case False
      have sel: "filter (\<lambda>(d, v). ?W d) ((d0, None) # ?tail) = filter (\<lambda>(d, v). ?W d) ?tail"
        using False by simp
      have "None \<notin> snd ` set ?tail"
        using diff_from_no_None [of s0 "map snd rest"] by (auto dest: set_zip_rightD)
      then have "None \<notin> snd ` set (filter (\<lambda>(d, v). ?W d) ?tail)" by auto
      from astype_int_all_Some [OF this] obtain out where
        out: "astype_int (filter (\<lambda>(d, v). ?W d) ?tail) = Inr out" and
        fst: "map fst out = map fst (filter (\<lambda>(d, v). ?W d) ?tail)"
        by blast
      have "map fst (filter (\<lambda>(d, v). ?W d) ?tail) = filter ?W (map fst rest)"
        by (rule map_fst_filter_zip) (simp add: length_diff_from)
      then have "map fst out = filter ?W dates" using fst False ds by simp
      moreover have "case_get_df cdata from_d to_d st ages buf = Inr out"
        unfolding df zipped sel by (rule out)
      ultimately show ?thesis using False ds by simp
    qed
  qed
qed

lemma occupancy_get_df_window:
  assumes "type = ''ICU'' \<or> type = ''normal''"
  shows "\<exists>df. occupancy_get_df data from_d to_d st type = Inr df
    \<and> map fst df = filter (\<lambda>d. from_d \<le> d \<and> d \<le> to_d)
                     (map Meldedatum (filter (\<lambda>r. occ_Bundesland r = st) data))"
  using assms by (auto simp: occupancy_get_df_def filter_map o_def split_def)

text \<open>
  Claim C7, amended. No window is rejected for lying outside the available data. With a
  valid bed type \<open>OccupancyData.get_df\<close> returns, for every window, exactly the rows of the
  region whose date lies in the window: a window that reaches outside the data yields a
  shorter series. \<open>CaseData.get_df\<close> likewise returns one row per available day in the
  window, except that it raises the cast error of the NaN difference when the window
  holds the first available day.
\<close>

theorem windows_not_checked:
  "(type = ''ICU'' \<or> type = ''normal'' \<longrightarrow>
      (\<exists>df. occupancy_get_df data from_d to_d st type = Inr df
         \<and> map fst df = filter (\<lambda>d. from_d \<le> d \<and> d \<le> to_d)
                          (map Meldedatum (filter (\<lambda>r. occ_Bundesland r = st) data))))
   \<and> (let dates = sort (remdups (map Time
          (filter (\<lambda>r. Altersgruppe r \<in> set ages) (filter (\<lambda>r. case_Bundesland r = st) cdata))))
      in if dates \<noteq> [] \<and> from_d - buf \<le> hd dates \<and> hd dates \<le> to_d
         then case_get_df cdata from_d to_d st ages buf = Inl IntCastingNaNError
         else \<exists>df. case_get_df cdata from_d to_d st ages buf = Inr df
                \<and> map fst df = filter (\<lambda>d. from_d - buf \<le> d \<and> d \<le> to_d) dates)"
  using occupancy_get_df_window [of type data from_d to_d st]
    case_get_df_window [where ages = ages and st = st and cdata = cdata and from_d = from_d
      and buf = buf and to_d = to_d]
  unfolding Let_def by blast

text \<open>
  Witness for C7: the window of days 3 to 9 on data that ends at day 4 (occupancy) and
  day 5 (cases).
\<close>

theorem windows_not_checked_witness:
  "(\<exists>df. occupancy_get_df demo_occupancy 3 9 ''Wien'' ''ICU'' = Inr df \<and> map fst df = [3, 4])
   \<and> (\<exists>df. case_get_df demo_cases 3 9 ''Wien'' [''<5''] 0 = Inr df \<and> map fst df = [3, 4, 5])"
proof -
  have d1: "filter (\<lambda>d. 3 \<le> d \<and> d \<le> 9)
      (map Meldedatum (filter (\<lambda>r. occ_Bundesland r = ''Wien'') demo_occupancy)) = [3, 4]"
    by code_simp
  have d2: "sort (remdups (map Time
      (filter (\<lambda>r. Altersgruppe r \<in> set [''<5'']) (filter (\<lambda>r. case_Bundesland r = ''Wien'') demo_cases))))
        = [0, 1, 2, 3, 4, 5]"
    by code_simp
  have d3: "filter (\<lambda>d. 3 - 0 \<le> d \<and> d \<le> 9) [0, 1, 2, 3, 4, 5 :: int] = [3, 4, 5]"
    by simp
  show ?thesis
    using windows_not_checked [where type = "''ICU''" and data = demo_occupancy and from_d = 3
        and to_d = 9 and st = "''Wien''" and ages = "[''<5'']" and cdata = demo_cases and buf = 0]
    unfolding d1 d2 Let_def d3 by simp
qed

text \<open>
  Counterexample to C7 as stated: windows that reach past the last available day return
  the two available entries and no error, and \<open>update\<close> stores the truncated series.
\<close>

theorem windows_not_checked_counterexample:
  "occupancy_get_array demo_occupancy 3 9 ''Wien'' ''ICU'' = Inr [6, 0]
   \<and> case_get_array demo_cases 4 9 ''Wien'' [''<5''] 0 = Inr [1, 2]
   \<and> map_sum id cases (update demo None None None None (Some 9) None) = Inr [2, 1, 0, 1, 2]"
  by code_simp

lemma filter_unknown: "st \<notin> f ` set data \<Longrightarrow> filter (\<lambda>r. f r = st) data = []"
  by (auto simp: filter_empty_conv)

lemma case_get_array_no_rows:
  "filter (\<lambda>r. case_Bundesland r = st) cdata = []
   \<Longrightarrow> case_get_array cdata from_d to_d st ages buf = Inr []"
  by (simp add: case_get_array_def case_get_df_def groupby_sum_def diff_def)

lemma occupancy_get_array_no_rows:
  "type = ''ICU'' \<or> type = ''normal'' \<Longrightarrow> filter (\<lambda>r. occ_Bundesland r = st) data = []
   \<Longrightarrow> occupancy_get_array data from_d to_d st type = Inr []"
  by (auto simp: occupancy_get_array_def occupancy_get_df_def)

text \<open>
  Claim C8, amended. A bed type other than \<open>'ICU'\<close> and \<open>'normal'\<close> makes
  \<open>OccupancyData.get_df\<close> and \<open>get_array\<close> raise \<open>ValueError\<close>, whatever the region and
  window. A region with no row in the data is not detected: with a valid bed type the
  occupancy provider, and the case provider, return the empty series and no error.
\<close>

theorem invalid_configuration:
  "(type \<noteq> ''ICU'' \<and> type \<noteq> ''normal'' \<longrightarrow>
      occupancy_get_df data from_d to_d st type = Inl ValueError
      \<and> occupancy_get_array data from_d to_d st type = Inl ValueError)
   \<and> ((type = ''ICU'' \<or> type = ''normal'') \<and> st \<notin> occ_Bundesland ` set data \<longrightarrow>
      occupancy_get_array data from_d to_d st type = Inr [])
   \<and> (st \<notin> case_Bundesland ` set cdata \<longrightarrow>
      case_get_array cdata from_d to_d st ages buf = Inr [])"
proof (intro conjI impI)
  assume "type \<noteq> ''ICU'' \<and> type \<noteq> ''normal''"
  then show "occupancy_get_df data from_d to_d st type = Inl ValueError"
    by (simp add: occupancy_get_df_def)
  then show "occupancy_get_array data from_d to_d st type = Inl ValueError"
    by (simp add: occupancy_get_array_def)
next
  assume "(type = ''ICU'' \<or> type = ''normal'') \<and> st \<notin> occ_Bundesland ` set data"
  then show "occupancy_get_array data from_d to_d st type = Inr []"
    using filter_unknown [of st occ_Bundesland data] occupancy_get_array_no_rows by blast
next
  assume "st \<notin> case_Bundesland ` set cdata"
  then show "case_get_array cdata from_d to_d st ages buf = Inr []"
    using filter_unknown [of st case_Bundesland cdata] case_get_array_no_rows by blast
qed

text \<open>Witness for C8: the bed type \<open>'icu'\<close> and the region \<open>'Atlantis'\<close>.\<close>

theorem invalid_configuration_witness:
  "occupancy_get_df demo_occupancy 2 3 ''Wien'' ''icu'' = Inl ValueError
   \<and> occupancy_get_array demo_occupancy 2 3 ''Wien'' ''icu'' = Inl ValueError
   \<and> occupancy_get_array demo_occupancy 2 3 ''Atlantis'' ''ICU'' = Inr []
   \<and> case_get_array demo_cases 2 3 ''Atlantis'' [''<5''] 1 = Inr []"
proof -
  have t: "''icu'' \<noteq> ''ICU'' \<and> ''icu'' \<noteq> ''normal''" by simp
  have o: "''Atlantis'' \<notin> occ_Bundesland ` set demo_occupancy" by (simp add: demo_occupancy_def)
  have c: "''Atlantis'' \<notin> case_Bundesland ` set demo_cases" by (simp add: demo_cases_def)
  have "occupancy_get_df demo_occupancy 2 3 ''Wien'' ''icu'' = Inl ValueError
      \<and> occupancy_get_array demo_occupancy 2 3 ''Wien'' ''icu'' = Inl ValueError"
    using invalid_configuration [where type = "''icu''" and data = demo_occupancy] t by blast
  moreover have "occupancy_get_array demo_occupancy 2 3 ''Atlantis'' ''ICU'' = Inr []"
    using invalid_configuration [where type = "''ICU''" and st = "''Atlantis''"
        and data = demo_occupancy] o by blast
  moreover have "case_get_array demo_cases 2 3 ''Atlantis'' [''<5''] 1 = Inr []"
    using invalid_configuration [where st = "''Atlantis''" and cdata = demo_cases] c by blast
  ultimately show ?thesis by simp
qed

text \<open>
  Counterexample to C8 as stated: the unknown region \<open>'Atlantis'\<close> gets empty series from
  both providers, and \<open>update\<close> accepts it.
\<close>

theorem unknown_region_counterexample:
  "occupancy_get_array demo_occupancy 2 3 ''Atlantis'' ''ICU'' = Inr []
   \<and> case_get_array demo_cases 2 3 ''Atlantis'' [''<5''] 1 = Inr []
   \<and> map_sum id (\<lambda>m. (occupancy m, cases m))
        (update demo (Some ''Atlantis'') None None None None None) = Inr ([], [])"
  by code_simp

end
